theory Spec2Isabelle
  imports Complex_Main "HOL-Library.AList" "HOL-Library.Multiset"
begin

section \<open>TikTokAnalyzer: a shallow embedding of \<^verbatim>\<open>src/analysis/tiktokAnalyzer.js\<close>\<close>

text \<open>
  The analyzer is a class of aggregation methods over a list of video records.
  Conventions of the embedding:

  \<^item> A finite JavaScript number is the real number it denotes, and every addition,
    division and multiplication of the source is followed by the rounding of IEEE 754
    binary64 (round to nearest, ties to even). Overflow to \<^verbatim>\<open>Infinity\<close> is left out:
    the four counters of \<^verbatim>\<open>video.stats\<close> are non-negative integers below \<open>2^53\<close>,
    and sums stay far below \<open>2^1024\<close>. The values that are not finite are kept where
    \<^verbatim>\<open>Math.log10(0)\<close> produces them.
  \<^item> A duration is a real number of seconds below \<open>10^21\<close> in magnitude, so that the
    property key \<^verbatim>\<open>String(Math.floor(duration))\<close> is a plain decimal numeral and
    \<^verbatim>\<open>parseInt\<close> reads it back unchanged.
  \<^item> A JavaScript object used as a dictionary is an association list in creation
    order; \<^verbatim>\<open>Object.entries\<close> lists array-index keys first, in ascending numeric
    order, and then the other string keys in creation order.
  \<^item> What the source leaves to the host (the local time zone, \<^verbatim>\<open>Math.log10\<close>, the
    order in which \<^verbatim>\<open>sort\<close> leaves an array it cannot order) and what it can write
    outside its arguments (the fields of the instance, properties of the built-in
    objects) are the fields of a record \<open>world\<close>, passed to the methods that read it
    and returned by those that write it.
  \<^item> A thrown exception is the left summand of the result.
\<close>

subsection \<open>Rounding to binary64\<close>

definition pow2 :: "int \<Rightarrow> real" where
  "pow2 e = (if 0 \<le> e then 2 ^ nat e else 1 / 2 ^ nat (- e))"

text \<open>
  For \<open>x > 0\<close> within the range of the format, \<open>binade n x\<close> is the exponent \<open>e\<close> with
  \<open>2^e \<le> x < 2^(e+1)\<close>; the first argument bounds the search.
\<close>

fun binade :: "nat \<Rightarrow> real \<Rightarrow> int" where
  "binade n x =
     (if n = 0 then 0
      else if 2 \<le> x then binade (n - 1) (x / 2) + 1
      else if x < 1 then binade (n - 1) (2 * x) - 1
      else 0)"

declare binade.simps [simp del]

definition round_half_even :: "real \<Rightarrow> int" where
  "round_half_even q =
     (if q - of_int \<lfloor>q\<rfloor> < 1 / 2 then \<lfloor>q\<rfloor>
      else if 1 / 2 < q - of_int \<lfloor>q\<rfloor> then \<lfloor>q\<rfloor> + 1
      else if even \<lfloor>q\<rfloor> then \<lfloor>q\<rfloor> else \<lfloor>q\<rfloor> + 1)"

text \<open>
  The nearest multiple of the unit in the last place: 53 significant bits, and the
  spacing of the subnormal numbers below \<open>2^-1022\<close>.
\<close>

definition ulp :: "real \<Rightarrow> real" where
  "ulp x = pow2 (max (binade 1100 \<bar>x\<bar>) (- 1022) - 52)"

definition binary64 :: "real \<Rightarrow> real" where
  "binary64 x =
     (if x = 0 then 0 else sgn x * (of_int (round_half_even (\<bar>x\<bar> / ulp x)) * ulp x))"

text \<open>
  The operators \<^verbatim>\<open>+\<close>, \<^verbatim>\<open>/\<close> and \<^verbatim>\<open>*\<close> on finite numbers. The source divides by
  \<^verbatim>\<open>views\<close> only behind the test \<^verbatim>\<open>views > 0\<close> and by \<^verbatim>\<open>count\<close> only after
  \<^verbatim>\<open>count++\<close>, so \<open>fdiv\<close> is never used with a zero divisor.
\<close>

definition fadd :: "real \<Rightarrow> real \<Rightarrow> real" where
  "fadd x y = binary64 (x + y)"

definition fdiv :: "real \<Rightarrow> real \<Rightarrow> real" where
  "fdiv x y = binary64 (x / y)"

definition fmul :: "real \<Rightarrow> real \<Rightarrow> real" where
  "fmul x y = binary64 (x * y)"

subsection \<open>Numbers that need not be finite\<close>

datatype jsnum = Fin real | PosInf | NegInf | NaN

fun is_finite :: "jsnum \<Rightarrow> bool" where
  "is_finite (Fin r) = True"
| "is_finite PosInf = False"
| "is_finite NegInf = False"
| "is_finite NaN = False"

text \<open>IEEE multiplication: \<open>0 \<times> \<plusminus>\<infinity>\<close> is \<^verbatim>\<open>NaN\<close>; otherwise the sign rule applies.\<close>

fun inf_times :: "real \<Rightarrow> bool \<Rightarrow> jsnum" where
  "inf_times r positive =
     (if r = 0 then NaN else if (0 < r) = positive then PosInf else NegInf)"

fun js_mul :: "jsnum \<Rightarrow> jsnum \<Rightarrow> jsnum" where
  "js_mul NaN b = NaN"
| "js_mul a NaN = NaN"
| "js_mul (Fin x) (Fin y) = Fin (fmul x y)"
| "js_mul (Fin x) PosInf = inf_times x True"
| "js_mul (Fin x) NegInf = inf_times x False"
| "js_mul PosInf (Fin y) = inf_times y True"
| "js_mul NegInf (Fin y) = inf_times y False"
| "js_mul PosInf PosInf = PosInf"
| "js_mul NegInf NegInf = PosInf"
| "js_mul PosInf NegInf = NegInf"
| "js_mul NegInf PosInf = NegInf"

text \<open>
  IEEE subtraction: \<open>\<infinity> - \<infinity>\<close> (same sign) is \<^verbatim>\<open>NaN\<close>. The source subtracts only
  inside comparators, which look at the sign of the result; the difference of two
  binary64 numbers rounds to a number of the same sign (it is zero or at least the
  smallest subnormal in magnitude), so the finite case keeps the exact difference.
\<close>

fun js_sub :: "jsnum \<Rightarrow> jsnum \<Rightarrow> jsnum" where
  "js_sub NaN b = NaN"
| "js_sub a NaN = NaN"
| "js_sub (Fin x) (Fin y) = Fin (x - y)"
| "js_sub (Fin x) PosInf = NegInf"
| "js_sub (Fin x) NegInf = PosInf"
| "js_sub PosInf (Fin y) = PosInf"
| "js_sub NegInf (Fin y) = NegInf"
| "js_sub PosInf PosInf = NaN"
| "js_sub NegInf NegInf = NaN"
| "js_sub PosInf NegInf = PosInf"
| "js_sub NegInf PosInf = NegInf"


subsection \<open>\<^verbatim>\<open>Array.prototype.sort\<close> with a comparator\<close>

text \<open>
  The sort looks at the sign of what the comparator returns, and takes \<^verbatim>\<open>NaN\<close> for
  \<open>+0\<close>.
\<close>

fun sign_of :: "jsnum \<Rightarrow> int" where
  "sign_of (Fin r) = (if r < 0 then - 1 else if 0 < r then 1 else 0)"
| "sign_of NegInf = - 1"
| "sign_of PosInf = 1"
| "sign_of NaN = 0"

text \<open>
  The comparator is consistent on the elements of an array when it never returns
  \<^verbatim>\<open>NaN\<close> and makes them equivalence classes in a total order (ECMAScript, the
  conditions on \<open>comparefn\<close> of \<^verbatim>\<open>Array.prototype.sort\<close>).
\<close>

definition consistent :: "('a \<Rightarrow> 'a \<Rightarrow> jsnum) \<Rightarrow> 'a list \<Rightarrow> bool" where
  "consistent cmp xs =
     (\<forall>a\<in>set xs. \<forall>b\<in>set xs. \<forall>c\<in>set xs.
        cmp a b \<noteq> NaN
        \<and> sign_of (cmp a a) = 0
        \<and> (sign_of (cmp a b) = 0 \<longrightarrow> sign_of (cmp b a) = 0)
        \<and> (sign_of (cmp a b) = 0 \<and> sign_of (cmp b c) = 0 \<longrightarrow> sign_of (cmp a c) = 0)
        \<and> (sign_of (cmp a b) < 0 \<and> sign_of (cmp b c) < 0 \<longrightarrow> sign_of (cmp a c) < 0)
        \<and> (0 < sign_of (cmp a b) \<and> 0 < sign_of (cmp b c) \<longrightarrow> 0 < sign_of (cmp a c)))"

text \<open>
  For a consistent comparator the sort is stable (ECMAScript 2019), so every engine
  returns the same array; it is computed here by insertion: \<open>x\<close>, which stood before
  all of \<open>ys\<close>, goes in front of the first element it does not have to follow.
\<close>

fun js_insert :: "('a \<Rightarrow> 'a \<Rightarrow> jsnum) \<Rightarrow> 'a \<Rightarrow> 'a list \<Rightarrow> 'a list" where
  "js_insert cmp x [] = [x]"
| "js_insert cmp x (y # ys) =
     (if sign_of (cmp x y) \<le> 0 then x # y # ys else y # js_insert cmp x ys)"

definition stable_sort :: "('a \<Rightarrow> 'a \<Rightarrow> jsnum) \<Rightarrow> 'a list \<Rightarrow> 'a list" where
  "stable_sort cmp xs = foldr (js_insert cmp) xs []"

text \<open>
  For any other comparator the order is implementation-defined: the engine, which
  sees the signs of the comparisons only, returns some permutation of the array. The
  first argument of \<open>js_sort\<close> is the engine's choice, as a list of positions; a list
  that is not a permutation of the positions is not a possible choice and is ignored.
\<close>

definition rearranged :: "nat list \<Rightarrow> 'a list \<Rightarrow> 'a list" where
  "rearranged p xs = (if sort p = [0..<length xs] then map (nth xs) p else xs)"

definition js_sort :: "(int list list \<Rightarrow> nat list) \<Rightarrow> ('a \<Rightarrow> 'a \<Rightarrow> jsnum) \<Rightarrow> 'a list \<Rightarrow> 'a list" where
  "js_sort engine cmp xs =
     (if consistent cmp xs then stable_sort cmp xs
      else rearranged (engine (map (\<lambda>a. map (\<lambda>b. sign_of (cmp a b)) xs) xs)) xs)"

subsection \<open>Objects used as dictionaries\<close>

text \<open>
  \<open>upsert fresh f k obj\<close> is the idiom
  \<^verbatim>\<open>if (!obj[k]) obj[k] = fresh; f(obj[k])\<close>
  for a key under which \<^verbatim>\<open>obj\<close> inherits nothing truthy: a new key is appended, an
  existing one keeps its place.
\<close>

definition upsert :: "'g \<Rightarrow> ('g \<Rightarrow> 'g) \<Rightarrow> 'k \<Rightarrow> ('k \<times> 'g) list \<Rightarrow> ('k \<times> 'g) list" where
  "upsert fresh f k obj =
     AList.update k (f (case map_of obj k of None \<Rightarrow> fresh | Some g \<Rightarrow> g)) obj"

text \<open>
  \<open>idx k\<close> is \<open>Some n\<close> when the key is the array index \<open>n\<close> (a canonical numeral below
  \<open>2^32 - 1\<close>), and \<open>None\<close> for any other string.
\<close>

definition index_rank :: "('k \<Rightarrow> nat option) \<Rightarrow> 'k \<times> 'g \<Rightarrow> nat" where
  "index_rank idx e = (case idx (fst e) of None \<Rightarrow> 0 | Some n \<Rightarrow> n)"

definition object_entries :: "('k \<Rightarrow> nat option) \<Rightarrow> ('k \<times> 'g) list \<Rightarrow> ('k \<times> 'g) list" where
  "object_entries idx obj =
     sort_key (index_rank idx) (filter (\<lambda>e. idx (fst e) \<noteq> None) obj)
     @ filter (\<lambda>e. idx (fst e) = None) obj"

definition is_digit :: "char \<Rightarrow> bool" where
  "is_digit c = (c \<in> set ''0123456789'')"

definition decimal_value :: "string \<Rightarrow> nat" where
  "decimal_value s = foldl (\<lambda>n c. 10 * n + (of_char c - 48)) 0 s"

definition string_index :: "string \<Rightarrow> nat option" where
  "string_index s =
     (if s \<noteq> [] \<and> list_all is_digit s \<and> (s = ''0'' \<or> hd s \<noteq> CHR ''0'')
         \<and> decimal_value s < 4294967295
      then Some (decimal_value s) else None)"

definition int_index :: "int \<Rightarrow> nat option" where
  "int_index k = (if 0 \<le> k \<and> k < 4294967295 then Some (nat k) else None)"

datatype js_error = TypeError

subsection \<open>The data model\<close>

record video_stats =
  likes :: nat
  comments :: nat
  shares :: nat
  views :: nat

record video =
  video_id :: string
  stats :: video_stats
  duration :: real
  createTime :: int
  hashtags :: "string list"
  music :: string

text \<open>The only fields of an instance: three thresholds set by the constructor.\<close>

record thresholds =
  high :: real
  medium :: real
  low :: real

record analyzer =
  engagementThresholds :: thresholds

text \<open>The constants are the binary64 numbers nearest to 0.15, 0.08 and 0.03.\<close>

definition new_TikTokAnalyzer :: analyzer where
  "new_TikTokAnalyzer =
     \<lparr>engagementThresholds =
        \<lparr>high = binary64 (15 / 100), medium = binary64 (8 / 100), low = binary64 (3 / 100)\<rparr>\<rparr>"

subsection \<open>The world around a call\<close>

text \<open>
  Read-only parts, fixed by the host: \<^verbatim>\<open>new Date(t).getDay()\<close> and \<^verbatim>\<open>.getHours()\<close>
  in the local time zone, \<^verbatim>\<open>Math.log10\<close> on positive arguments (which the language
  leaves implementation-approximated), and the engine's choice of order in a sort with
  an inconsistent comparator.

  Writable parts: the fields of the instance \<^verbatim>\<open>this\<close>, and \<open>polluted\<close>, the set of
  built-in objects on which the properties \<^verbatim>\<open>count\<close>, \<^verbatim>\<open>totalEngagement\<close> and
  \<^verbatim>\<open>totalViews\<close> have been written. Each built-in object is named by the property of
  \<^verbatim>\<open>Object.prototype\<close> under which an empty object finds it.
\<close>

record world =
  getDay :: "int \<Rightarrow> nat"
  getHours :: "int \<Rightarrow> nat"
  math_log10 :: "real \<Rightarrow> real"
  sort_choice :: "int list list \<Rightarrow> nat list"
  instance_fields :: analyzer
  polluted :: "string set"

text \<open>\<^verbatim>\<open>Math.log10\<close>: \<^verbatim>\<open>-Infinity\<close> at zero, \<^verbatim>\<open>NaN\<close> below it.\<close>

definition js_log10 :: "world \<Rightarrow> real \<Rightarrow> jsnum" where
  "js_log10 w x = (if x < 0 then NaN else if x = 0 then NegInf else Fin (math_log10 w x))"

text \<open>
  The properties every object inherits from \<^verbatim>\<open>Object.prototype\<close>. Reading one of
  these keys from \<^verbatim>\<open>{}\<close> yields a function (or, for \<^verbatim>\<open>__proto__\<close>, the prototype
  itself): a truthy value that has no \<^verbatim>\<open>videos\<close> array.
\<close>

definition object_prototype_names :: "string list" where
  "object_prototype_names =
     [''constructor'', ''__defineGetter__'', ''__defineSetter__'', ''hasOwnProperty'',
      ''__lookupGetter__'', ''__lookupSetter__'', ''isPrototypeOf'',
      ''propertyIsEnumerable'', ''toString'', ''valueOf'', ''__proto__'',
      ''toLocaleString'']"

text \<open>
  What an object without own property \<open>k\<close> finds under \<open>k\<close>: a built-in; or, once the
  three counters have been written on \<^verbatim>\<open>Object.prototype\<close> itself, one of them, whose
  value is \<^verbatim>\<open>NaN\<close> (\<^verbatim>\<open>undefined + 1\<close> and whatever is added to it later); or nothing.
\<close>

datatype inherited = Builtin | Counter_NaN | Missing

definition counter_names :: "string list" where
  "counter_names = [''count'', ''totalEngagement'', ''totalViews'']"

definition inherited_property :: "world \<Rightarrow> string \<Rightarrow> inherited" where
  "inherited_property w k =
     (if k \<in> set object_prototype_names then Builtin
      else if k \<in> set counter_names \<and> ''__proto__'' \<in> polluted w then Counter_NaN
      else Missing)"

fun truthy :: "inherited \<Rightarrow> bool" where
  "truthy Builtin = True"
| "truthy Counter_NaN = False"
| "truthy Missing = False"

text \<open>
  \<^verbatim>\<open>forEach\<close> with a callback that may throw and may write to the world: the loop
  stops at the first exception, in the world the callback left.
\<close>

fun forEach_throwing ::
  "('w \<Rightarrow> 's \<Rightarrow> 'a \<Rightarrow> (js_error + 's) \<times> 'w) \<Rightarrow> 'a list \<Rightarrow> 'w \<Rightarrow> 's \<Rightarrow> (js_error + 's) \<times> 'w" where
  "forEach_throwing f [] w s = (Inr s, w)"
| "forEach_throwing f (x # xs) w s =
     (case f w s x of
        (Inl e, w') \<Rightarrow> (Inl e, w')
      | (Inr s', w') \<Rightarrow> forEach_throwing f xs w' s')"

subsection \<open>\<^verbatim>\<open>calculateEngagementRate\<close>\<close>

definition calculateEngagementRate :: "video \<Rightarrow> real" where
  "calculateEngagementRate video =
     (let engagementActions =
            fadd (fadd (real (likes (stats video))) (real (comments (stats video))))
                 (real (shares (stats video)))
      in if views (stats video) > 0
         then fdiv engagementActions (real (views (stats video))) else 0)"

subsection \<open>\<^verbatim>\<open>analyzeDuration\<close>\<close>

record duration_group =
  dg_count :: nat
  dg_totalEngagement :: real
  dg_videos :: "video list"

record best_duration =
  bd_duration :: int
  bd_avgEngagement :: real
  bd_sampleSize :: "nat option"

definition duration_add :: "video \<Rightarrow> duration_group \<Rightarrow> duration_group" where
  "duration_add video g =
     g\<lparr>dg_count := dg_count g + 1,
       dg_totalEngagement := fadd (dg_totalEngagement g) (calculateEngagementRate video),
       dg_videos := dg_videos g @ [video]\<rparr>"

text \<open>
  The keys are numerals, under which an object inherits nothing, whatever has been
  written on the built-ins.
\<close>

definition duration_step :: "(int \<times> duration_group) list \<Rightarrow> video \<Rightarrow> (int \<times> duration_group) list" where
  "duration_step groups video =
     upsert \<lparr>dg_count = 0, dg_totalEngagement = 0, dg_videos = []\<rparr>
       (duration_add video) \<lfloor>duration video\<rfloor> groups"

definition durationGroups :: "video list \<Rightarrow> (int \<times> duration_group) list" where
  "durationGroups videos = foldl duration_step [] videos"

text \<open>The body of the second loop; \<^verbatim>\<open>parseInt\<close> gives the integer key back.\<close>

definition pick_better :: "best_duration \<Rightarrow> int \<times> duration_group \<Rightarrow> best_duration" where
  "pick_better bestDuration e =
     (let avgEngagement = fdiv (dg_totalEngagement (snd e)) (real (dg_count (snd e)))
      in if avgEngagement > bd_avgEngagement bestDuration
         then \<lparr>bd_duration = fst e, bd_avgEngagement = avgEngagement,
               bd_sampleSize = Some (dg_count (snd e))\<rparr>
         else bestDuration)"

definition no_duration :: best_duration where
  "no_duration = \<lparr>bd_duration = 0, bd_avgEngagement = 0, bd_sampleSize = None\<rparr>"

definition analyzeDuration :: "video list \<Rightarrow> best_duration" where
  "analyzeDuration videos =
     foldl pick_better no_duration (object_entries int_index (durationGroups videos))"

subsection \<open>\<^verbatim>\<open>analyzePostingTimes\<close>\<close>

record time_slot =
  ts_count :: nat
  ts_totalEngagement :: real
  ts_day :: nat
  ts_hour :: nat

record posting_time =
  pt_count :: nat
  pt_totalEngagement :: real
  pt_day :: nat
  pt_hour :: nat
  pt_avgEngagement :: real

text \<open>
  The time stamps are integers of milliseconds within the range of \<^verbatim>\<open>Date\<close>, so
  that the day and the hour are numbers. The key \<^verbatim>\<open>`${dayOfWeek}-${hour}`\<close> is kept
  as the pair it prints: the template is injective on pairs of numbers, and a string
  that starts with a digit and contains a hyphen is neither an array index nor the
  name of an inherited property.
\<close>

definition slot_of :: "world \<Rightarrow> video \<Rightarrow> nat \<times> nat" where
  "slot_of w video = (getDay w (createTime video), getHours w (createTime video))"

definition slot_add :: "video \<Rightarrow> time_slot \<Rightarrow> time_slot" where
  "slot_add video g =
     g\<lparr>ts_count := ts_count g + 1,
       ts_totalEngagement := fadd (ts_totalEngagement g) (calculateEngagementRate video)\<rparr>"

definition slot_step :: "world \<Rightarrow> ((nat \<times> nat) \<times> time_slot) list \<Rightarrow> video
    \<Rightarrow> ((nat \<times> nat) \<times> time_slot) list" where
  "slot_step w slots video =
     upsert \<lparr>ts_count = 0, ts_totalEngagement = 0,
              ts_day = fst (slot_of w video), ts_hour = snd (slot_of w video)\<rparr>
       (slot_add video) (slot_of w video) slots"

definition timeSlots :: "world \<Rightarrow> video list \<Rightarrow> ((nat \<times> nat) \<times> time_slot) list" where
  "timeSlots w videos = foldl (slot_step w) [] videos"

definition slot_entry :: "(nat \<times> nat) \<times> time_slot \<Rightarrow> posting_time" where
  "slot_entry e =
     \<lparr>pt_count = ts_count (snd e), pt_totalEngagement = ts_totalEngagement (snd e),
      pt_day = ts_day (snd e), pt_hour = ts_hour (snd e),
      pt_avgEngagement = fdiv (ts_totalEngagement (snd e)) (real (ts_count (snd e)))\<rparr>"

definition by_avgEngagement :: "posting_time \<Rightarrow> posting_time \<Rightarrow> jsnum" where
  "by_avgEngagement a b = js_sub (Fin (pt_avgEngagement b)) (Fin (pt_avgEngagement a))"

definition analyzePostingTimes :: "world \<Rightarrow> video list \<Rightarrow> posting_time list" where
  "analyzePostingTimes w videos =
     take 5 (js_sort (sort_choice w) by_avgEngagement
       (map slot_entry (object_entries (\<lambda>k. None) (timeSlots w videos))))"

subsection \<open>\<^verbatim>\<open>analyzeHashtags\<close> and \<^verbatim>\<open>analyzeMusic\<close>\<close>

text \<open>
  The counters \<^verbatim>\<open>count\<close> and \<^verbatim>\<open>totalViews\<close> are sums of integers, which are exact
  below \<open>2^53\<close>.
\<close>

record usage_stats =
  us_count :: nat
  us_totalEngagement :: real
  us_totalViews :: nat
  us_videos :: "string list"

text \<open>
  One entry of the ranking. The source names the first field \<^verbatim>\<open>tag\<close> in
  \<^verbatim>\<open>analyzeHashtags\<close> and \<^verbatim>\<open>music\<close> in \<^verbatim>\<open>analyzeMusic\<close>; the four others
  have the same names in both.
\<close>

record ranked_usage =
  key :: string
  avgEngagement :: real
  totalViews :: nat
  useCount :: nat
  performanceScore :: jsnum

definition fresh_usage :: usage_stats where
  "fresh_usage = \<lparr>us_count = 0, us_totalEngagement = 0, us_totalViews = 0, us_videos = []\<rparr>"

definition usage_add :: "video \<Rightarrow> usage_stats \<Rightarrow> usage_stats" where
  "usage_add video g =
     g\<lparr>us_count := us_count g + 1,
       us_totalEngagement := fadd (us_totalEngagement g) (calculateEngagementRate video),
       us_totalViews := us_totalViews g + views (stats video),
       us_videos := us_videos g @ [video_id video]\<rparr>"

text \<open>
  The loop body shared by both methods. \<^verbatim>\<open>table[k]\<close> finds an own property first
  and an inherited one otherwise. When the inherited value is truthy no fresh record
  is stored: the three counters are then written on the inherited object, which is
  one of the built-ins, and \<^verbatim>\<open>.videos.push\<close> reads \<^verbatim>\<open>push\<close> from \<^verbatim>\<open>undefined\<close>,
  which throws.
\<close>

definition usage_step :: "world \<Rightarrow> video \<Rightarrow> (string \<times> usage_stats) list \<Rightarrow> string
    \<Rightarrow> (js_error + (string \<times> usage_stats) list) \<times> world" where
  "usage_step w video table k =
     (if map_of table k = None \<and> truthy (inherited_property w k)
      then (Inl TypeError, w\<lparr>polluted := insert k (polluted w)\<rparr>)
      else (Inr (upsert fresh_usage (usage_add video) k table), w))"

definition hashtagStats :: "world \<Rightarrow> video list
    \<Rightarrow> (js_error + (string \<times> usage_stats) list) \<times> world" where
  "hashtagStats w videos =
     forEach_throwing
       (\<lambda>w table video.
          forEach_throwing (\<lambda>w table tag. usage_step w video table tag) (hashtags video) w table)
       videos w []"

definition musicStats :: "world \<Rightarrow> video list
    \<Rightarrow> (js_error + (string \<times> usage_stats) list) \<times> world" where
  "musicStats w videos =
     forEach_throwing (\<lambda>w table video. usage_step w video table (music video)) videos w []"

definition usage_entry :: "world \<Rightarrow> string \<times> usage_stats \<Rightarrow> ranked_usage" where
  "usage_entry w e =
     \<lparr>key = fst e,
      avgEngagement = fdiv (us_totalEngagement (snd e)) (real (us_count (snd e))),
      totalViews = us_totalViews (snd e),
      useCount = us_count (snd e),
      performanceScore =
        js_mul (Fin (fdiv (us_totalEngagement (snd e)) (real (us_count (snd e)))))
          (js_log10 w (real (us_totalViews (snd e))))\<rparr>"

definition by_performanceScore :: "ranked_usage \<Rightarrow> ranked_usage \<Rightarrow> jsnum" where
  "by_performanceScore a b = js_sub (performanceScore b) (performanceScore a)"

definition rank_usage :: "world \<Rightarrow> (string \<times> usage_stats) list \<Rightarrow> ranked_usage list" where
  "rank_usage w table =
     js_sort (sort_choice w) by_performanceScore
       (map (usage_entry w) (object_entries string_index table))"

definition analyzeHashtags :: "world \<Rightarrow> video list \<Rightarrow> (js_error + ranked_usage list) \<times> world" where
  "analyzeHashtags w videos =
     (case hashtagStats w videos of
        (Inl e, w') \<Rightarrow> (Inl e, w')
      | (Inr table, w') \<Rightarrow> (Inr (rank_usage w' table), w'))"

definition analyzeMusic :: "world \<Rightarrow> video list \<Rightarrow> (js_error + ranked_usage list) \<times> world" where
  "analyzeMusic w videos =
     (case musicStats w videos of
        (Inl e, w') \<Rightarrow> (Inl e, w')
      | (Inr table, w') \<Rightarrow> (Inr (rank_usage w' table), w'))"

subsection \<open>\<^verbatim>\<open>generateRecommendations\<close> and \<^verbatim>\<open>formatTimeRecommendation\<close>\<close>

record analysis_results =
  optimalDuration :: best_duration
  bestPostingTimes :: "posting_time list"
  topHashtags :: "ranked_usage list"
  topMusic :: "ranked_usage list"

record timing_advice =
  bestTimes :: "posting_time list"
  timing_recommendation :: string

record duration_advice =
  optimal :: best_duration
  duration_recommendation :: string

record hashtags_advice =
  recommended :: "ranked_usage list"
  hashtags_recommendation :: string

record music_advice =
  trending :: "ranked_usage list"
  music_recommendation :: string

record recommendations =
  timing :: timing_advice
  for_duration :: duration_advice
  for_hashtags :: hashtags_advice
  for_music :: music_advice

record batch_result =
  analysisResults :: analysis_results
  batch_recommendations :: recommendations

text \<open>
  Strings are lists of code units; the three accented letters of the messages are
  the units \<open>0xE0\<close> (a grave), \<open>0xE9\<close> (e acute) and the apostrophe is \<open>0x27\<close>.
\<close>

definition digits :: string where
  "digits = ''0123456789''"

fun string_of_nat :: "nat \<Rightarrow> string" where
  "string_of_nat n =
     (if n < 10 then [digits ! n] else string_of_nat (n div 10) @ [digits ! (n mod 10)])"

definition string_of_int :: "int \<Rightarrow> string" where
  "string_of_int k = (if k < 0 then ''-'' @ string_of_nat (nat (- k)) else string_of_nat (nat k))"

definition days :: "string list" where
  "days = [''dimanche'', ''lundi'', ''mardi'', ''mercredi'', ''jeudi'', ''vendredi'', ''samedi'']"

text \<open>
  The argument is \<^verbatim>\<open>undefined\<close> (\<open>None\<close>) when the caller indexed an empty array;
  reading \<^verbatim>\<open>.day\<close> from it throws. An index outside the table of day names prints
  as \<^verbatim>\<open>undefined\<close>.
\<close>

definition formatTimeRecommendation :: "posting_time option \<Rightarrow> js_error + string" where
  "formatTimeRecommendation timeSlot =
     (case timeSlot of
        None \<Rightarrow> Inl TypeError
      | Some slot \<Rightarrow>
          Inr ((if pt_day slot < length days then days ! pt_day slot else ''undefined'')
               @ '' '' @ [CHR 0xE0] @ '' '' @ string_of_nat (pt_hour slot) @ ''h00''))"

definition element0 :: "'a list \<Rightarrow> 'a option" where
  "element0 xs = (case xs of [] \<Rightarrow> None | x # rest \<Rightarrow> Some x)"

definition generateRecommendations :: "analysis_results \<Rightarrow> js_error + recommendations" where
  "generateRecommendations results =
     (case formatTimeRecommendation (element0 (bestPostingTimes results)) of
        Inl e \<Rightarrow> Inl e
      | Inr sentence \<Rightarrow>
          Inr \<lparr>timing =
                 \<lparr>bestTimes = take 3 (bestPostingTimes results),
                  timing_recommendation = ''Postez vos vid'' @ [CHR 0xE9] @ ''os '' @ sentence\<rparr>,
               for_duration =
                 \<lparr>optimal = optimalDuration results,
                  duration_recommendation =
                    ''Visez une dur'' @ [CHR 0xE9] @ ''e de ''
                    @ string_of_int (bd_duration (optimalDuration results))
                    @ '' secondes pour un engagement optimal''\<rparr>,
               for_hashtags =
                 \<lparr>recommended = take 5 (topHashtags results),
                  hashtags_recommendation =
                    ''Utilisez une combinaison de ces hashtags performants''\<rparr>,
               for_music =
                 \<lparr>trending = take 3 (topMusic results),
                  music_recommendation =
                    ''Ces musiques ont g'' @ [CHR 0xE9] @ ''n'' @ [CHR 0xE9] @ ''r'' @ [CHR 0xE9]
                    @ '' le plus d'' @ [CHR 0x27] @ ''engagement''\<rparr>\<rparr>)"

subsection \<open>\<^verbatim>\<open>analyzeVideoBatch\<close>\<close>

text \<open>
  The four aggregators run in the order of the object literal, each in the world the
  one before it left; an exception ends the run there. A rejected promise is the left
  summand.
\<close>

definition analyzeVideoBatch :: "world \<Rightarrow> video list \<Rightarrow> (js_error + batch_result) \<times> world" where
  "analyzeVideoBatch w videos =
     (let d = analyzeDuration videos; p = analyzePostingTimes w videos in
      case analyzeHashtags w videos of
        (Inl e, w1) \<Rightarrow> (Inl e, w1)
      | (Inr h, w1) \<Rightarrow>
          (case analyzeMusic w1 videos of
             (Inl e, w2) \<Rightarrow> (Inl e, w2)
           | (Inr m, w2) \<Rightarrow>
               (let results = \<lparr>optimalDuration = d, bestPostingTimes = p,
                                topHashtags = h, topMusic = m\<rparr>
                in case generateRecommendations results of
                     Inl e \<Rightarrow> (Inl e, w2)
                   | Inr r \<Rightarrow> (Inr \<lparr>analysisResults = results, batch_recommendations = r\<rparr>, w2))))"

subsection \<open>Notions used to state the properties\<close>

text \<open>The distinct elements of a list, in the order of their first occurrence.\<close>

primrec first_seen :: "'a list \<Rightarrow> 'a list" where
  "first_seen [] = []"
| "first_seen (x # xs) = x # removeAll x (first_seen xs)"

text \<open>The position of the first occurrence: how early a key is encountered.\<close>

definition encounter_rank :: "'a list \<Rightarrow> 'a \<Rightarrow> nat" where
  "encounter_rank xs a = length (takeWhile (\<lambda>y. y \<noteq> a) xs)"

text \<open>
  The sum the source computes for a group: starting from \<open>0\<close>, each term is added in
  turn and every partial sum is rounded. The average is that sum divided by the number
  of terms, rounded once more.
\<close>

definition fl_sum :: "real list \<Rightarrow> real" where
  "fl_sum xs = foldl fadd 0 xs"

definition average_engagement :: "video list \<Rightarrow> real" where
  "average_engagement vs = fdiv (fl_sum (map calculateEngagementRate vs)) (real (length vs))"

definition duration_key :: "video \<Rightarrow> int" where
  "duration_key video = \<lfloor>duration video\<rfloor>"

definition duration_members :: "video list \<Rightarrow> int \<Rightarrow> video list" where
  "duration_members videos k = filter (\<lambda>v. duration_key v = k) videos"

definition slot_members :: "world \<Rightarrow> video list \<Rightarrow> nat \<times> nat \<Rightarrow> video list" where
  "slot_members w videos s = filter (\<lambda>v. slot_of w v = s) videos"

definition posted_slot :: "posting_time \<Rightarrow> nat \<times> nat" where
  "posted_slot p = (pt_day p, pt_hour p)"

text \<open>
  Every use of a key, in the order of the loops: a video once for each occurrence of
  a tag in its list, or once for its music.
\<close>

definition tag_uses :: "video list \<Rightarrow> (video \<times> string) list" where
  "tag_uses videos = concat (map (\<lambda>v. map (Pair v) (hashtags v)) videos)"

definition music_uses :: "video list \<Rightarrow> (video \<times> string) list" where
  "music_uses videos = map (\<lambda>v. (v, music v)) videos"

text \<open>The table the loops build when nothing throws.\<close>

definition usage_table :: "(video \<times> string) list \<Rightarrow> (string \<times> usage_stats) list" where
  "usage_table uses =
     foldl (\<lambda>table p. upsert fresh_usage (usage_add (fst p)) (snd p) table) [] uses"

definition uses_of :: "(video \<times> string) list \<Rightarrow> string \<Rightarrow> video list" where
  "uses_of uses k = map fst (filter (\<lambda>p. snd p = k) uses)"





definition all_tags :: "video list \<Rightarrow> string set" where
  "all_tags videos = set (concat (map hashtags videos))"


definition total_views :: "video list \<Rightarrow> nat" where
  "total_views vs = sum_list (map (\<lambda>v. views (stats v)) vs)"

text \<open>The part of the world that the host fixes and no method writes.\<close>

definition host :: "world \<Rightarrow> (int \<Rightarrow> nat) \<times> (int \<Rightarrow> nat) \<times> (real \<Rightarrow> real) \<times> (int list list \<Rightarrow> nat list)" where
  "host w = (getDay w, getHours w, math_log10 w, sort_choice w)"

subsection \<open>Sample inputs\<close>

text \<open>
  A host whose local time is UTC (1 January 1970 was a Thursday) and whose
  \<^verbatim>\<open>Math.log10\<close> is correctly rounded; the analyzer is freshly constructed and no
  built-in has been written to. Its sort leaves an array that it cannot order as it
  is: this stands for the choice of some engine, and is what every stable sort does to
  an array of two elements on which the comparator returns \<^verbatim>\<open>NaN\<close>. The theorems
  hold for every choice.
\<close>

definition utc_host :: world where
  "utc_host =
     \<lparr>getDay = (\<lambda>t. nat ((t div 86400000 + 4) mod 7)),
      getHours = (\<lambda>t. nat ((t div 3600000) mod 24)),
      math_log10 = (\<lambda>x. binary64 (log 10 x)),
      sort_choice = (\<lambda>signs. [0..<length signs]),
      instance_fields = new_TikTokAnalyzer,
      polluted = {}\<rparr>"

text \<open>The same host one hour east of Greenwich.\<close>

definition cet_host :: world where
  "cet_host = utc_host\<lparr>getDay := (\<lambda>t. nat (((t + 3600000) div 86400000 + 4) mod 7)),
                        getHours := (\<lambda>t. nat (((t + 3600000) div 3600000) mod 24))\<rparr>"

text \<open>
  A video with the given identifier, views, likes, duration, post time, tags and
  music, and with 5 comments and 5 shares when it has views at all.
\<close>

definition clip :: "string \<Rightarrow> nat \<Rightarrow> nat \<Rightarrow> real \<Rightarrow> int \<Rightarrow> string list \<Rightarrow> string \<Rightarrow> video" where
  "clip ident v l d t tags track =
     \<lparr>video_id = ident,
      stats = \<lparr>likes = l, comments = (if v = 0 then 0 else 5),
               shares = (if v = 0 then 0 else 5), views = v\<rparr>,
      duration = d, createTime = t, hashtags = tags, music = track\<rparr>"

text \<open>Monday 5 January 1970, 14:00 UTC, in milliseconds.\<close>

definition monday_14h :: int where
  "monday_14h = 396000000"

text \<open>Two groups with the same average; the later one has the smaller key.\<close>

definition tie_batch :: "video list" where
  "tie_batch =
     [clip ''first'' 100 10 20 monday_14h [] ''trackX'',
      clip ''second'' 100 10 10 monday_14h [] ''trackX'']"

text \<open>Durations 12.9 and 12.1 share the key 12; 13.0 has its own.\<close>

definition seconds_batch :: "video list" where
  "seconds_batch =
     [clip ''p'' 100 10 (129 / 10) monday_14h [] ''trackX'',
      clip ''q'' 100 30 (121 / 10) monday_14h [] ''trackX'',
      clip ''r'' 100 20 13 monday_14h [] ''trackX'']"

text \<open>
  One video of 5 seconds and three of 10 seconds, each with rate 0.1: the three rates
  add up to 0.30000000000000004, a third of which is 0.10000000000000002.
\<close>

definition rounding_batch :: "video list" where
  "rounding_batch =
     [clip ''p'' 100 0 5 monday_14h [] ''trackX'',
      clip ''q'' 100 0 10 monday_14h [] ''trackX'',
      clip ''r'' 100 0 10 monday_14h [] ''trackX'',
      clip ''s'' 100 0 10 monday_14h [] ''trackX'']"

text \<open>A video nobody has viewed.\<close>

definition unseen_clip :: video where
  "unseen_clip = clip ''z'' 0 0 30 monday_14h [''a''] ''trackX''"

text \<open>Tuesday 6 January 1970, 09:00 UTC, in milliseconds.\<close>

definition tuesday_09h :: int where
  "tuesday_09h = 464400000"

text \<open>Three videos in two slots with the same average.\<close>

definition times_batch :: "video list" where
  "times_batch =
     [clip ''a'' 100 10 15 monday_14h [] ''trackX'',
      clip ''b'' 100 10 15 tuesday_09h [] ''trackX'',
      clip ''c'' 100 10 15 monday_14h [] ''trackX'']"

text \<open>
  One video posted on Thursday 1 January 1970 at 00:00 UTC and three at 01:00, each
  with rate 0.1.
\<close>

definition slots_batch :: "video list" where
  "slots_batch =
     [clip ''p'' 100 0 15 0 [] ''trackX'',
      clip ''q'' 100 0 15 3600000 [] ''trackX'',
      clip ''r'' 100 0 15 3600000 [] ''trackX'',
      clip ''s'' 100 0 15 3600000 [] ''trackX'']"




text \<open>A video whose tag names a property that every object inherits.\<close>

definition inherited_clip :: video where
  "inherited_clip = clip ''v4'' 100 10 15 monday_14h [''__proto__''] ''m4''"

text \<open>A video whose tag is the name of one of the counters.\<close>

definition count_clip :: video where
  "count_clip = clip ''v5'' 100 10 15 monday_14h [''count''] ''m5''"

text \<open>The single video of the scenario of the specification.\<close>

definition scenario_clip :: video where
  "scenario_clip = clip ''v1'' 100 10 (154 / 10) monday_14h [''a'', ''b''] ''trackX''"

section \<open>Verification\<close>

subsection \<open>Rounding\<close>

lemma binary64_zero [simp]: "binary64 0 = 0"
  by (simp add: binary64_def)

lemma fadd_zero_zero [simp]: "fadd 0 0 = 0"
  by (simp add: fadd_def)

lemma fdiv_zero [simp]: "fdiv 0 y = 0"
  by (simp add: fdiv_def)

lemma fl_sum_zero:
  "\<forall>x\<in>set xs. f x = 0 \<Longrightarrow> fl_sum (map f xs) = 0"
  by (induction xs) (simp_all add: fl_sum_def)

lemma average_engagement_zero:
  "\<forall>v\<in>set vs. calculateEngagementRate v = 0 \<Longrightarrow> average_engagement vs = 0"
  by (simp add: average_engagement_def fl_sum_zero)

text \<open>An integer below \<open>2^53\<close> is a binary64 number.\<close>

lemma binade_lower:
  "1 \<le> x \<Longrightarrow> 0 \<le> binade n x \<and> 2 ^ nat (binade n x) \<le> x"
proof (induction n arbitrary: x)
  case 0
  then show ?case by (simp add: binade.simps)
next
  case (Suc n)
  show ?case
  proof (cases "2 \<le> x")
    case True
    then have "1 \<le> x / 2" by simp
    from Suc.IH [OF this] have b: "0 \<le> binade n (x / 2)" and p: "2 ^ nat (binade n (x / 2)) \<le> x / 2"
      by simp_all
    from b have "nat (binade n (x / 2) + 1) = Suc (nat (binade n (x / 2)))" by simp
    moreover from True have "binade (Suc n) x = binade n (x / 2) + 1"
      by (subst binade.simps) simp
    ultimately show ?thesis using p b by simp
  next
    case False
    with Suc.prems have "binade (Suc n) x = 0"
      by (subst binade.simps) simp
    with Suc.prems show ?thesis by simp
  qed
qed

lemma round_half_even_of_int [simp]: "round_half_even (of_int m) = m"
  by (simp add: round_half_even_def)

lemma binary64_of_nat:
  assumes "n < 2 ^ 53"
  shows "binary64 (real n) = real n"
proof (cases "n = 0")
  case True
  then show ?thesis by simp
next
  case False
  let ?b = "binade 1100 (real n)"
  from False have one: "1 \<le> real n" by simp
  from binade_lower [OF one] have b0: "0 \<le> ?b" and low: "2 ^ nat ?b \<le> real n"
    by simp_all
  from assms have "real n < 2 ^ 53"
    by (metis of_nat_less_iff of_nat_numeral of_nat_power)
  with low have "(2::real) ^ nat ?b < 2 ^ 53" by (rule le_less_trans)
  then have "nat ?b < 53" by (rule power_less_imp_less_exp [rotated]) simp
  with b0 have b53: "?b \<le> 52" by simp
  define d where "d = nat (52 - ?b)"
  from b0 b53 have ulp: "ulp (real n) = 1 / 2 ^ d"
    by (auto simp: ulp_def pow2_def d_def max_def nat_diff_distrib)
  have "\<bar>real n\<bar> / ulp (real n) = of_int (int n * 2 ^ d)"
    by (simp add: ulp)
  then have "round_half_even (\<bar>real n\<bar> / ulp (real n)) = int n * 2 ^ d"
    by (simp only: round_half_even_of_int)
  then show ?thesis
    using False by (simp add: binary64_def ulp)
qed

subsection \<open>Engagement rate\<close>

text \<open>
  C1. For every video, the engagement rate is \<open>(likes + comments + shares) / views\<close>
  as JavaScript computes it when \<open>views > 0\<close>, and is \<open>0\<close> when \<open>views = 0\<close>,
  whatever the three other counters are. As long as the three counters add up to less
  than \<open>2^53\<close> the sum is exact, and the rate is the binary64 number nearest to the
  exact quotient.
\<close>

theorem calculateEngagementRate_ratio:
  "(0 < views (stats video) \<longrightarrow>
      calculateEngagementRate video =
        fdiv (fadd (fadd (real (likes (stats video))) (real (comments (stats video))))
                   (real (shares (stats video))))
             (real (views (stats video))))
   \<and> (0 < views (stats video)
        \<and> likes (stats video) + comments (stats video) + shares (stats video) < 2 ^ 53 \<longrightarrow>
      calculateEngagementRate video =
        binary64 (real (likes (stats video) + comments (stats video) + shares (stats video))
                    / real (views (stats video))))
   \<and> (views (stats video) = 0 \<longrightarrow> calculateEngagementRate video = 0)"
proof (intro conjI impI)
  assume "0 < views (stats video)"
  then show "calculateEngagementRate video =
        fdiv (fadd (fadd (real (likes (stats video))) (real (comments (stats video))))
                   (real (shares (stats video))))
             (real (views (stats video)))"
    by (simp add: calculateEngagementRate_def Let_def)
next
  let ?l = "likes (stats video)" and ?c = "comments (stats video)" and ?s = "shares (stats video)"
  assume a: "0 < views (stats video) \<and> ?l + ?c + ?s < 2 ^ 53"
  then have "?l + ?c < 2 ^ 53" by simp
  then have "fadd (real ?l) (real ?c) = real (?l + ?c)"
    using binary64_of_nat [of "?l + ?c"] by (simp add: fadd_def)
  moreover have "fadd (real (?l + ?c)) (real ?s) = real (?l + ?c + ?s)"
    using a binary64_of_nat [of "?l + ?c + ?s"] by (simp add: fadd_def)
  ultimately show "calculateEngagementRate video =
        binary64 (real (?l + ?c + ?s) / real (views (stats video)))"
    using a by (simp add: calculateEngagementRate_def Let_def fdiv_def)
next
  assume "views (stats video) = 0"
  then show "calculateEngagementRate video = 0"
    by (simp add: calculateEngagementRate_def Let_def)
qed

lemmas rounding_eval = binade.simps binary64_def ulp_def round_half_even_def pow2_def fadd_def fdiv_def fmul_def

theorem calculateEngagementRate_ratio_witness:
  "calculateEngagementRate scenario_clip = 3602879701896397 / 18014398509481984
   \<and> calculateEngagementRate scenario_clip = binary64 (1 / 5)
   \<and> calculateEngagementRate
        \<lparr>video_id = ''v0'', stats = \<lparr>likes = 7, comments = 3, shares = 2, views = 0\<rparr>,
         duration = 9, createTime = 0, hashtags = [], music = ''trackX''\<rparr> = 0"
proof -
  have "calculateEngagementRate scenario_clip = binary64 (1 / 5)"
    using calculateEngagementRate_ratio [of scenario_clip]
    by (simp add: scenario_clip_def clip_def)
  moreover have "binary64 (1 / 5) = 3602879701896397 / 18014398509481984"
    by (simp add: rounding_eval)
  moreover have "calculateEngagementRate
        \<lparr>video_id = ''v0'', stats = \<lparr>likes = 7, comments = 3, shares = 2, views = 0\<rparr>,
         duration = 9, createTime = 0, hashtags = [], music = ''trackX''\<rparr> = 0"
    using calculateEngagementRate_ratio
          [of "\<lparr>video_id = ''v0'', stats = \<lparr>likes = 7, comments = 3, shares = 2, views = 0\<rparr>,
               duration = 9, createTime = 0, hashtags = [], music = ''trackX''\<rparr>"]
    by simp
  ultimately show ?thesis by simp
qed

subsection \<open>The sort\<close>

lemma mset_js_insert [simp]: "mset (js_insert cmp x ys) = add_mset x (mset ys)"
  by (induction ys) simp_all

lemma set_js_insert [simp]: "set (js_insert cmp x ys) = insert x (set ys)"
  by (induction ys) auto

lemma mset_stable_sort [simp]: "mset (stable_sort cmp xs) = mset xs"
  by (induction xs) (simp_all add: stable_sort_def)

lemma mset_rearranged [simp]: "mset (rearranged p xs) = mset xs"
proof (cases "sort p = [0..<length xs]")
  case True
  then have "mset p = mset [0..<length xs]"
    by (metis mset_sort)
  then have "mset (map (nth xs) p) = mset (map (nth xs) [0..<length xs])"
    by (simp only: mset_map)
  then show ?thesis
    using True by (simp add: rearranged_def map_nth)
next
  case False
  then show ?thesis by (simp add: rearranged_def)
qed

text \<open>Whatever the comparator and the engine, the sort permutes the array.\<close>

lemma mset_js_sort [simp]: "mset (js_sort engine cmp xs) = mset xs"
  by (simp add: js_sort_def)

lemma set_js_sort [simp]: "set (js_sort engine cmp xs) = set xs"
  using mset_js_sort [of engine cmp xs] by (rule mset_eq_setD)

lemma length_js_sort [simp]: "length (js_sort engine cmp xs) = length xs"
  using mset_js_sort [of engine cmp xs] by (rule mset_eq_length)

lemma distinct_map_js_sort [simp]:
  "distinct (map h (js_sort engine cmp xs)) = distinct (map h xs)"
proof -
  have "mset (map h (js_sort engine cmp xs)) = mset (map h xs)"
    by simp
  then show ?thesis by (rule mset_eq_imp_distinct_iff)
qed

text \<open>
  A comparator that subtracts finite scores is consistent, and the sort then orders
  by decreasing score and keeps elements of equal score in their order.
\<close>

lemma consistent_scores:
  fixes s :: "'a \<Rightarrow> real"
  assumes "\<forall>a\<in>set xs. \<forall>b\<in>set xs. cmp a b = Fin (s b - s a)"
  shows "consistent cmp xs"
  unfolding consistent_def using assms by auto

lemma js_insert_ranked:
  fixes s :: "'a \<Rightarrow> real"
  assumes "\<forall>y\<in>set ys. cmp x y = Fin (s y - s x)"
    and "sorted_wrt (\<lambda>a b. s b < s a \<or> (s a = s b \<and> T a b)) ys"
    and "\<forall>y\<in>set ys. T x y"
  shows "sorted_wrt (\<lambda>a b. s b < s a \<or> (s a = s b \<and> T a b)) (js_insert cmp x ys)"
  using assms
proof (induction ys)
  case Nil
  show ?case by simp
next
  case (Cons y ys)
  from Cons.prems(1) have sign: "(sign_of (cmp x y) \<le> 0) = (s y \<le> s x)"
    by simp
  show ?case
  proof (cases "s y \<le> s x")
    case True
    have "s z < s x \<or> (s x = s z \<and> T x z)" if "z \<in> set (y # ys)" for z
    proof -
      from that Cons.prems(2) have "s z \<le> s y" by auto
      with True that Cons.prems(3) show ?thesis by auto
    qed
    with True sign Cons.prems show ?thesis by simp
  next
    case False
    with Cons.prems have "sorted_wrt (\<lambda>a b. s b < s a \<or> (s a = s b \<and> T a b)) (js_insert cmp x ys)"
      by (intro Cons.IH) simp_all
    with False sign Cons.prems show ?thesis by auto
  qed
qed

lemma set_stable_sort [simp]: "set (stable_sort cmp xs) = set xs"
  using mset_stable_sort [of cmp xs] by (rule mset_eq_setD)

lemma stable_sort_ranked:
  fixes s :: "'a \<Rightarrow> real"
  assumes "\<forall>a\<in>set xs. \<forall>b\<in>set xs. cmp a b = Fin (s b - s a)"
    and "sorted_wrt T xs"
  shows "sorted_wrt (\<lambda>a b. s b < s a \<or> (s a = s b \<and> T a b)) (stable_sort cmp xs)"
  using assms
proof (induction xs)
  case Nil
  show ?case by (simp add: stable_sort_def)
next
  case (Cons x xs)
  have unfold: "stable_sort cmp (x # xs) = js_insert cmp x (stable_sort cmp xs)"
    by (simp add: stable_sort_def)
  from Cons.prems have "sorted_wrt (\<lambda>a b. s b < s a \<or> (s a = s b \<and> T a b)) (stable_sort cmp xs)"
    by (intro Cons.IH) simp_all
  moreover from Cons.prems have "\<forall>y\<in>set (stable_sort cmp xs). cmp x y = Fin (s y - s x)"
    by simp
  moreover from Cons.prems have "\<forall>y\<in>set (stable_sort cmp xs). T x y"
    by simp
  ultimately show ?case
    unfolding unfold by (intro js_insert_ranked)
qed

lemma js_sort_ranked:
  fixes s :: "'a \<Rightarrow> real"
  assumes "\<forall>a\<in>set xs. \<forall>b\<in>set xs. cmp a b = Fin (s b - s a)"
    and "sorted_wrt T xs"
  shows "sorted_wrt (\<lambda>a b. s b < s a \<or> (s a = s b \<and> T a b)) (js_sort engine cmp xs)"
proof -
  from assms(1) have "consistent cmp xs" by (rule consistent_scores)
  then have "js_sort engine cmp xs = stable_sort cmp xs"
    by (simp add: js_sort_def)
  with stable_sort_ranked [OF assms] show ?thesis by simp
qed

subsection \<open>The empty batch\<close>

lemma js_sort_Nil [simp]: "js_sort engine cmp [] = []"
  by (simp add: js_sort_def consistent_def stable_sort_def)

text \<open>
  C7. On the empty list every aggregator returns without failing:
  \<^verbatim>\<open>analyzeDuration\<close> gives \<^verbatim>\<open>{duration: 0, avgEngagement: 0}\<close> with no
  \<^verbatim>\<open>sampleSize\<close>, and \<^verbatim>\<open>analyzePostingTimes\<close>, \<^verbatim>\<open>analyzeHashtags\<close> and
  \<^verbatim>\<open>analyzeMusic\<close> give the empty sequence.
\<close>

theorem aggregators_on_empty_batch:
  "analyzeDuration [] = \<lparr>bd_duration = 0, bd_avgEngagement = 0, bd_sampleSize = None\<rparr>
   \<and> analyzePostingTimes w [] = []
   \<and> fst (analyzeHashtags w []) = Inr []
   \<and> fst (analyzeMusic w []) = Inr []"
  by (simp add: analyzeDuration_def durationGroups_def no_duration_def object_entries_def
        analyzePostingTimes_def timeSlots_def
        analyzeHashtags_def hashtagStats_def analyzeMusic_def musicStats_def rank_usage_def)

subsection \<open>Grouping by a key\<close>

lemma map_of_upsert:
  "map_of (upsert fresh f k obj) k' =
     (if k' = k then Some (f (case map_of obj k of None \<Rightarrow> fresh | Some g \<Rightarrow> g)) else map_of obj k')"
  by (simp add: upsert_def update_conv')

lemma keys_upsert:
  "map fst (upsert fresh f k obj) =
     (if k \<in> set (map fst obj) then map fst obj else map fst obj @ [k])"
  by (simp add: upsert_def update_keys)

lemma set_first_seen [simp]: "set (first_seen xs) = set xs"
  by (induction xs) auto

lemma distinct_first_seen [simp]: "distinct (first_seen xs)"
  by (induction xs) (auto simp: distinct_removeAll)

lemma first_seen_snoc:
  "first_seen (xs @ [x]) = (if x \<in> set xs then first_seen xs else first_seen xs @ [x])"
  by (induction xs) auto

lemma length_first_seen: "length (first_seen xs) = card (set xs)"
  using distinct_card [of "first_seen xs"] by simp

lemma grouped_keys:
  assumes "\<And>obj x. step obj x = upsert (fresh x) (add x) (kf x) obj"
  shows "map fst (foldl step [] xs) = first_seen (map kf xs)"
proof (induction xs rule: rev_induct)
  case Nil
  show ?case by simp
next
  case (snoc x xs)
  then show ?case
    by (simp add: assms keys_upsert first_seen_snoc)
qed

lemma grouped_values:
  assumes "\<And>obj x. step obj x = upsert (fresh x) (add x) (kf x) obj"
  shows "map_of (foldl step [] xs) k =
           (case filter (\<lambda>x. kf x = k) xs of
              [] \<Rightarrow> None
            | y # ys \<Rightarrow> Some (foldl (\<lambda>g x. add x g) (fresh y) (y # ys)))"
proof (induction xs rule: rev_induct)
  case Nil
  show ?case by simp
next
  case (snoc x xs)
  show ?case
  proof (cases "kf x = k")
    case True
    then show ?thesis
      using snoc by (simp add: assms map_of_upsert split: list.splits)
  next
    case False
    then show ?thesis
      using snoc by (simp add: assms map_of_upsert)
  qed
qed

lemma set_object_entries [simp]: "set (object_entries idx obj) = set obj"
  by (auto simp: object_entries_def)


lemma object_entries_all_indices:
  assumes "\<forall>e\<in>set obj. idx (fst e) \<noteq> None"
  shows "object_entries idx obj = sort_key (index_rank idx) obj"
proof -
  have "filter (\<lambda>e. idx (fst e) \<noteq> None) obj = obj"
    using assms by (simp add: filter_id_conv)
  moreover have "filter (\<lambda>e. idx (fst e) = None) obj = []"
    using assms by (simp add: filter_empty_conv)
  ultimately show ?thesis by (simp add: object_entries_def)
qed

lemma object_entries_no_indices [simp]: "object_entries (\<lambda>k. None) obj = obj"
  by (simp add: object_entries_def)

subsection \<open>Encounter order\<close>

lemma encounter_rank_Cons:
  "encounter_rank (x # xs) a = (if a = x then 0 else Suc (encounter_rank xs a))"
  by (simp add: encounter_rank_def)

lemma first_seen_ranked:
  "sorted_wrt (\<lambda>a b. encounter_rank xs a < encounter_rank xs b) (first_seen xs)"
proof (induction xs)
  case Nil
  show ?case by simp
next
  case (Cons x xs)
  let ?rest = "removeAll x (first_seen xs)"
  have "sorted_wrt (\<lambda>a b. encounter_rank xs a < encounter_rank xs b) ?rest"
    using Cons.IH by (simp add: removeAll_filter_not_eq sorted_wrt_filter)
  then have "sorted_wrt (\<lambda>a b. encounter_rank (x # xs) a < encounter_rank (x # xs) b) ?rest"
    by (rule sorted_wrt_mono_rel [rotated]) (simp add: encounter_rank_Cons)
  moreover have "\<forall>b\<in>set ?rest. encounter_rank (x # xs) x < encounter_rank (x # xs) b"
    by (simp add: encounter_rank_Cons)
  ultimately show ?case by simp
qed

subsection \<open>Duration groups and the choice of the best one\<close>

lemma foldl_duration_add:
  "foldl (\<lambda>g x. duration_add x g) g0 ys =
     \<lparr>dg_count = dg_count g0 + length ys,
      dg_totalEngagement = foldl fadd (dg_totalEngagement g0) (map calculateEngagementRate ys),
      dg_videos = dg_videos g0 @ ys\<rparr>"
  by (induction ys arbitrary: g0) (simp_all add: duration_add_def)

lemma durationGroups_keys:
  "map fst (durationGroups videos) = first_seen (map duration_key videos)"
  unfolding durationGroups_def
  by (rule grouped_keys) (simp add: duration_step_def duration_key_def)

lemma durationGroups_lookup:
  "map_of (durationGroups videos) k =
     (if duration_members videos k = [] then None
      else Some \<lparr>dg_count = length (duration_members videos k),
                 dg_totalEngagement =
                   fl_sum (map calculateEngagementRate (duration_members videos k)),
                 dg_videos = duration_members videos k\<rparr>)"
proof -
  have "map_of (foldl duration_step [] videos) k =
          (case filter (\<lambda>x. duration_key x = k) videos of
             [] \<Rightarrow> None
           | y # ys \<Rightarrow>
               Some (foldl (\<lambda>g x. duration_add x g)
                       \<lparr>dg_count = 0, dg_totalEngagement = 0, dg_videos = []\<rparr> (y # ys)))"
    by (rule grouped_values) (simp add: duration_step_def duration_key_def)
  then show ?thesis
    unfolding durationGroups_def duration_members_def
    by (simp add: foldl_duration_add fl_sum_def split: list.splits)
qed

lemma durationGroups_entry:
  assumes "e \<in> set (durationGroups videos)"
  shows "duration_members videos (fst e) \<noteq> []
         \<and> dg_count (snd e) = length (duration_members videos (fst e))
         \<and> dg_totalEngagement (snd e) =
             fl_sum (map calculateEngagementRate (duration_members videos (fst e)))"
proof -
  have "distinct (map fst (durationGroups videos))"
    by (simp add: durationGroups_keys)
  with assms have "map_of (durationGroups videos) (fst e) = Some (snd e)"
    by (simp add: map_of_eq_Some_iff)
  then have ne: "duration_members videos (fst e) \<noteq> []"
    and eq: "snd e = \<lparr>dg_count = length (duration_members videos (fst e)),
                 dg_totalEngagement =
                   fl_sum (map calculateEngagementRate (duration_members videos (fst e))),
                 dg_videos = duration_members videos (fst e)\<rparr>"
    by (auto simp: durationGroups_lookup split: if_splits)
  from eq have "dg_count (snd e) = length (duration_members videos (fst e))"
    "dg_totalEngagement (snd e) =
             fl_sum (map calculateEngagementRate (duration_members videos (fst e)))"
    by simp_all
  with ne show ?thesis by simp
qed

text \<open>
  The second loop keeps the first entry, in the order of \<^verbatim>\<open>Object.entries\<close>, whose
  average exceeds the starting value and every average before it, and is not exceeded
  by any after it; when there is none it keeps the starting value.
\<close>

lemma foldl_pick_better:
  "(foldl pick_better b E = b
      \<and> (\<forall>e\<in>set E. fdiv (dg_totalEngagement (snd e)) (real (dg_count (snd e)))
            \<le> bd_avgEngagement b))
   \<or> (\<exists>E1 e E2. E = E1 @ e # E2
        \<and> foldl pick_better b E =
            \<lparr>bd_duration = fst e,
             bd_avgEngagement = fdiv (dg_totalEngagement (snd e)) (real (dg_count (snd e))),
             bd_sampleSize = Some (dg_count (snd e))\<rparr>
        \<and> bd_avgEngagement b < fdiv (dg_totalEngagement (snd e)) (real (dg_count (snd e)))
        \<and> (\<forall>x\<in>set E1. fdiv (dg_totalEngagement (snd x)) (real (dg_count (snd x)))
               < fdiv (dg_totalEngagement (snd e)) (real (dg_count (snd e))))
        \<and> (\<forall>x\<in>set E2. fdiv (dg_totalEngagement (snd x)) (real (dg_count (snd x)))
               \<le> fdiv (dg_totalEngagement (snd e)) (real (dg_count (snd e)))))"
  (is "?keep b E \<or> ?pick b E")
proof (induction E arbitrary: b)
  case Nil
  show ?case by simp
next
  case (Cons a E)
  let ?avg = "\<lambda>e. fdiv (dg_totalEngagement (snd e)) (real (dg_count (snd e)))"
  let ?b' = "pick_better b a"
  have step: "foldl pick_better b (a # E) = foldl pick_better ?b' E" by simp
  show ?case
  proof (cases "bd_avgEngagement b < ?avg a")
    case True
    then have b': "?b' = \<lparr>bd_duration = fst a, bd_avgEngagement = ?avg a,
                          bd_sampleSize = Some (dg_count (snd a))\<rparr>"
      by (simp add: pick_better_def Let_def)
    from Cons.IH [of ?b'] show ?thesis
    proof
      assume "?keep ?b' E"
      with True b' have "a # E = [] @ a # E \<and> foldl pick_better b (a # E) = ?b'
          \<and> (\<forall>x\<in>set E. ?avg x \<le> ?avg a)"
        by simp
      with True b' show ?thesis by (metis empty_iff list.set(1))
    next
      assume "?pick ?b' E"
      then obtain E1 e E2 where e: "E = E1 @ e # E2"
        "foldl pick_better ?b' E = \<lparr>bd_duration = fst e, bd_avgEngagement = ?avg e,
             bd_sampleSize = Some (dg_count (snd e))\<rparr>"
        "bd_avgEngagement ?b' < ?avg e" "\<forall>x\<in>set E1. ?avg x < ?avg e"
        "\<forall>x\<in>set E2. ?avg x \<le> ?avg e"
        by blast
      from e(3) b' True have "bd_avgEngagement b < ?avg e" "?avg a < ?avg e" by simp_all
      with e have "a # E = (a # E1) @ e # E2
          \<and> foldl pick_better b (a # E) = \<lparr>bd_duration = fst e, bd_avgEngagement = ?avg e,
             bd_sampleSize = Some (dg_count (snd e))\<rparr>
          \<and> bd_avgEngagement b < ?avg e \<and> (\<forall>x\<in>set (a # E1). ?avg x < ?avg e)
          \<and> (\<forall>x\<in>set E2. ?avg x \<le> ?avg e)"
        by simp
      then show ?thesis by blast
    qed
  next
    case False
    then have b': "?b' = b"
      by (simp add: pick_better_def Let_def)
    from Cons.IH [of b] show ?thesis
    proof
      assume "?keep b E"
      with False b' show ?thesis by simp
    next
      assume "?pick b E"
      then obtain E1 e E2 where e: "E = E1 @ e # E2"
        "foldl pick_better b E = \<lparr>bd_duration = fst e, bd_avgEngagement = ?avg e,
             bd_sampleSize = Some (dg_count (snd e))\<rparr>"
        "bd_avgEngagement b < ?avg e" "\<forall>x\<in>set E1. ?avg x < ?avg e"
        "\<forall>x\<in>set E2. ?avg x \<le> ?avg e"
        by blast
      from e(3) False have "?avg a < ?avg e" by simp
      with e b' have "a # E = (a # E1) @ e # E2
          \<and> foldl pick_better b (a # E) = \<lparr>bd_duration = fst e, bd_avgEngagement = ?avg e,
             bd_sampleSize = Some (dg_count (snd e))\<rparr>
          \<and> bd_avgEngagement b < ?avg e \<and> (\<forall>x\<in>set (a # E1). ?avg x < ?avg e)
          \<and> (\<forall>x\<in>set E2. ?avg x \<le> ?avg e)"
        by simp
      then show ?thesis by blast
    qed
  qed
qed

lemma durationGroups_avg:
  assumes "e \<in> set (durationGroups videos)"
  shows "fdiv (dg_totalEngagement (snd e)) (real (dg_count (snd e))) =
           average_engagement (duration_members videos (fst e))"
  using durationGroups_entry [OF assms] by (simp add: average_engagement_def)

lemma durationGroups_key_set:
  "fst ` set (durationGroups videos) = duration_key ` set videos"
proof -
  have "set (map fst (durationGroups videos)) = set (map duration_key videos)"
    by (simp only: durationGroups_keys set_first_seen)
  then show ?thesis by simp
qed

lemma analyzeDuration_cases:
  "(analyzeDuration videos = no_duration
      \<and> (\<forall>k\<in>duration_key ` set videos. average_engagement (duration_members videos k) \<le> 0))
   \<or> (\<exists>E1 e E2. object_entries int_index (durationGroups videos) = E1 @ e # E2
        \<and> analyzeDuration videos =
            \<lparr>bd_duration = fst e,
             bd_avgEngagement = average_engagement (duration_members videos (fst e)),
             bd_sampleSize = Some (length (duration_members videos (fst e)))\<rparr>
        \<and> 0 < average_engagement (duration_members videos (fst e))
        \<and> (\<forall>x\<in>set E1. average_engagement (duration_members videos (fst x))
               < average_engagement (duration_members videos (fst e)))
        \<and> (\<forall>x\<in>set E2. average_engagement (duration_members videos (fst x))
               \<le> average_engagement (duration_members videos (fst e))))"
proof -
  let ?E = "object_entries int_index (durationGroups videos)"
  let ?avg = "\<lambda>e. fdiv (dg_totalEngagement (snd e)) (real (dg_count (snd e)))"
  let ?mean = "\<lambda>k. average_engagement (duration_members videos k)"
  have avg: "?avg x = ?mean (fst x)" if "x \<in> set ?E" for x
    using that by (simp add: durationGroups_avg)
  have cnt: "dg_count (snd x) = length (duration_members videos (fst x))" if "x \<in> set ?E" for x
    using that durationGroups_entry [of x videos] by simp
  from foldl_pick_better [of no_duration ?E] show ?thesis
  proof
    assume keep: "foldl pick_better no_duration ?E = no_duration
      \<and> (\<forall>e\<in>set ?E. ?avg e \<le> bd_avgEngagement no_duration)"
    have "?mean k \<le> 0" if "k \<in> duration_key ` set videos" for k
    proof -
      from that have "k \<in> fst ` set ?E"
        by (simp add: durationGroups_key_set)
      then obtain x where x: "x \<in> set ?E" "fst x = k" by auto
      with keep have "?avg x \<le> 0" by (simp add: no_duration_def)
      with x avg [of x] show ?thesis by simp
    qed
    with keep show ?thesis by (simp add: analyzeDuration_def)
  next
    assume "\<exists>E1 e E2. ?E = E1 @ e # E2
        \<and> foldl pick_better no_duration ?E =
            \<lparr>bd_duration = fst e, bd_avgEngagement = ?avg e,
             bd_sampleSize = Some (dg_count (snd e))\<rparr>
        \<and> bd_avgEngagement no_duration < ?avg e
        \<and> (\<forall>x\<in>set E1. ?avg x < ?avg e)
        \<and> (\<forall>x\<in>set E2. ?avg x \<le> ?avg e)"
    then obtain E1 e E2 where split: "?E = E1 @ e # E2"
      and res: "foldl pick_better no_duration ?E =
            \<lparr>bd_duration = fst e, bd_avgEngagement = ?avg e,
             bd_sampleSize = Some (dg_count (snd e))\<rparr>"
      and pos: "bd_avgEngagement no_duration < ?avg e"
      and before: "\<forall>x\<in>set E1. ?avg x < ?avg e"
      and after: "\<forall>x\<in>set E2. ?avg x \<le> ?avg e"
      by blast
    have mem: "e \<in> set ?E" "set E1 \<subseteq> set ?E" "set E2 \<subseteq> set ?E"
      by (simp_all only: split) auto
    have e_avg: "?avg e = ?mean (fst e)" using mem(1) by (rule avg)
    have "analyzeDuration videos =
            \<lparr>bd_duration = fst e, bd_avgEngagement = ?mean (fst e),
             bd_sampleSize = Some (length (duration_members videos (fst e)))\<rparr>"
      using res e_avg cnt [OF mem(1)] by (simp add: analyzeDuration_def)
    moreover have "0 < ?mean (fst e)"
      using pos e_avg by (simp add: no_duration_def)
    moreover have "\<forall>x\<in>set E1. ?mean (fst x) < ?mean (fst e)"
      using before mem(2) avg e_avg by (metis subsetD)
    moreover have "\<forall>x\<in>set E2. ?mean (fst x) \<le> ?mean (fst e)"
      using after mem(3) avg e_avg by (metis subsetD)
    ultimately show ?thesis using split by blast
  qed
qed

text \<open>
  C10. For every list, and so for non-empty ones, in which each video has engagement
  rate \<open>0\<close> (for instance because nobody viewed it), \<^verbatim>\<open>analyzeDuration\<close> returns
  the placeholder \<^verbatim>\<open>{duration: 0, avgEngagement: 0}\<close> with no \<^verbatim>\<open>sampleSize\<close>: an
  average of \<open>0\<close> is not strictly greater than the initial \<open>0\<close>. The placeholder
  therefore does not tell an empty input apart.
\<close>

theorem analyzeDuration_without_engagement:
  assumes "\<forall>v\<in>set videos. calculateEngagementRate v = 0"
  shows "analyzeDuration videos = \<lparr>bd_duration = 0, bd_avgEngagement = 0, bd_sampleSize = None\<rparr>"
proof -
  have "average_engagement (duration_members videos k) = 0" for k
  proof -
    have "\<forall>v\<in>set (duration_members videos k). calculateEngagementRate v = 0"
      using assms by (simp add: duration_members_def)
    then show ?thesis by (rule average_engagement_zero)
  qed
  with analyzeDuration_cases [of videos] show ?thesis
    by (auto simp: no_duration_def)
qed

text \<open>
  C3, as amended. For every list whose durations lie in \<open>[0, 2^32 - 1)\<close>,
  \<^verbatim>\<open>analyzeDuration\<close> groups the videos by the floor of their duration and computes
  for each group the average of its engagement rates, as the rounded sum of the rates
  in input order divided by their number. When no group has a positive average it
  returns the placeholder \<^verbatim>\<open>{duration: 0, avgEngagement: 0}\<close> with no
  \<^verbatim>\<open>sampleSize\<close>. Otherwise it returns a group whose computed average is greatest,
  with that average and the size of the group; among the groups that share the
  greatest average it returns the one with the smallest duration, because
  \<^verbatim>\<open>Object.entries\<close> lists integer keys in ascending order, not in the order in
  which the groups were met.
\<close>

theorem analyzeDuration_selects_best:
  assumes range: "\<forall>v\<in>set videos. 0 \<le> duration v \<and> duration v < 4294967295"
  shows "if \<forall>k\<in>duration_key ` set videos. average_engagement (duration_members videos k) \<le> 0
         then analyzeDuration videos =
                \<lparr>bd_duration = 0, bd_avgEngagement = 0, bd_sampleSize = None\<rparr>
         else \<exists>k\<in>duration_key ` set videos.
                analyzeDuration videos =
                  \<lparr>bd_duration = k,
                   bd_avgEngagement = average_engagement (duration_members videos k),
                   bd_sampleSize = Some (length (duration_members videos k))\<rparr>
                \<and> (\<forall>k'\<in>duration_key ` set videos.
                      average_engagement (duration_members videos k')
                        \<le> average_engagement (duration_members videos k)
                      \<and> (average_engagement (duration_members videos k')
                           = average_engagement (duration_members videos k) \<longrightarrow> k \<le> k'))"
proof -
  let ?G = "durationGroups videos"
  let ?E = "object_entries int_index ?G"
  let ?mean = "\<lambda>k. average_engagement (duration_members videos k)"
  have key_range: "0 \<le> k \<and> k < 4294967295" if "k \<in> duration_key ` set videos" for k
  proof -
    from that obtain v where v: "v \<in> set videos" "k = \<lfloor>duration v\<rfloor>"
      by (auto simp: duration_key_def)
    with range have "0 \<le> duration v" "duration v < 4294967295" by simp_all
    then have "0 \<le> \<lfloor>duration v\<rfloor>" "\<lfloor>duration v\<rfloor> < 4294967295"
      by (simp_all add: floor_less_iff)
    with v show ?thesis by simp
  qed
  have in_range: "0 \<le> fst e \<and> fst e < 4294967295" if "e \<in> set ?G" for e
    using that key_range [of "fst e"] durationGroups_key_set [of videos] by auto
  have rank: "index_rank int_index e = nat (fst e)" if "e \<in> set ?G" for e
    using in_range [OF that] by (simp add: index_rank_def int_index_def)
  have "\<forall>e\<in>set ?G. int_index (fst e) \<noteq> None"
    using in_range by (simp add: int_index_def)
  then have E: "?E = sort_key (index_rank int_index) ?G"
    by (rule object_entries_all_indices)
  have sorted: "sorted (map (index_rank int_index) ?E)"
    by (simp only: E sorted_sort_key)
  from analyzeDuration_cases [of videos] show ?thesis
  proof
    assume "analyzeDuration videos = no_duration
      \<and> (\<forall>k\<in>duration_key ` set videos. ?mean k \<le> 0)"
    then show ?thesis by (simp add: no_duration_def)
  next
    assume "\<exists>E1 e E2. ?E = E1 @ e # E2
        \<and> analyzeDuration videos =
            \<lparr>bd_duration = fst e, bd_avgEngagement = ?mean (fst e),
             bd_sampleSize = Some (length (duration_members videos (fst e)))\<rparr>
        \<and> 0 < ?mean (fst e)
        \<and> (\<forall>x\<in>set E1. ?mean (fst x) < ?mean (fst e))
        \<and> (\<forall>x\<in>set E2. ?mean (fst x) \<le> ?mean (fst e))"
    then obtain E1 e E2 where split: "?E = E1 @ e # E2"
      and res: "analyzeDuration videos =
            \<lparr>bd_duration = fst e, bd_avgEngagement = ?mean (fst e),
             bd_sampleSize = Some (length (duration_members videos (fst e)))\<rparr>"
      and pos: "0 < ?mean (fst e)"
      and before: "\<forall>x\<in>set E1. ?mean (fst x) < ?mean (fst e)"
      and after: "\<forall>x\<in>set E2. ?mean (fst x) \<le> ?mean (fst e)"
      by blast
    have e_mem: "e \<in> set ?G"
      using split set_object_entries [of int_index ?G] by auto
    have E2_mem: "x \<in> set ?G" if "x \<in> set E2" for x
      using that split set_object_entries [of int_index ?G] by auto
    have later: "fst e \<le> fst x" if "x \<in> set E2" for x
    proof -
      from sorted split that have "index_rank int_index e \<le> index_rank int_index x"
        by (simp add: sorted_append)
      then have "nat (fst e) \<le> nat (fst x)"
        by (simp add: rank [OF e_mem] rank [OF E2_mem [OF that]])
      with in_range [OF e_mem] in_range [OF E2_mem [OF that]] show ?thesis by linarith
    qed
    have key: "fst e \<in> duration_key ` set videos"
      using e_mem durationGroups_key_set [of videos] by force
    have best: "?mean k' \<le> ?mean (fst e) \<and> (?mean k' = ?mean (fst e) \<longrightarrow> fst e \<le> k')"
      if "k' \<in> duration_key ` set videos" for k'
    proof -
      from that have "k' \<in> fst ` set ?E"
        by (simp add: durationGroups_key_set)
      then obtain x where x: "x \<in> set ?E" "fst x = k'" by auto
      from x(1) split consider "x \<in> set E1" | "x = e" | "x \<in> set E2" by auto
      then show ?thesis
      proof cases
        case 1
        with before have "?mean (fst x) < ?mean (fst e)" by blast
        with x(2) show ?thesis by simp
      next
        case 2
        with x(2) show ?thesis by simp
      next
        case 3
        with after have "?mean (fst x) \<le> ?mean (fst e)" by blast
        with later [OF 3] x(2) show ?thesis by simp
      qed
    qed
    from key pos have some: "\<not> (\<forall>k\<in>duration_key ` set videos. ?mean k \<le> 0)"
      by (metis not_less)
    from key res best have "\<exists>k\<in>duration_key ` set videos.
                analyzeDuration videos =
                  \<lparr>bd_duration = k, bd_avgEngagement = ?mean k,
                   bd_sampleSize = Some (length (duration_members videos k))\<rparr>
                \<and> (\<forall>k'\<in>duration_key ` set videos.
                      ?mean k' \<le> ?mean k \<and> (?mean k' = ?mean k \<longrightarrow> k \<le> k'))"
      by blast
    with some show ?thesis by (simp only: if_False)
  qed
qed

subsection \<open>\<^verbatim>\<open>analyzeDuration\<close> on the samples\<close>

lemmas duration_eval =
  analyzeDuration_def durationGroups_def duration_step_def duration_add_def upsert_def
  object_entries_def index_rank_def int_index_def pick_better_def no_duration_def
  calculateEngagementRate_def clip_def rounding_eval

text \<open>
  Against C3 as it was stated. In \<open>tie_batch\<close> the group met first has key 20 and
  the same average, 0.2, as the group with key 10, and the result is the group with
  key 10. On a non-empty list of unviewed videos the result is no group at all.
\<close>

theorem analyzeDuration_tie_counterexample:
  "analyzeDuration tie_batch =
     \<lparr>bd_duration = 10, bd_avgEngagement = 3602879701896397 / 18014398509481984,
      bd_sampleSize = Some 1\<rparr>
   \<and> duration_key (hd tie_batch) = 20
   \<and> average_engagement (duration_members tie_batch 20) = 3602879701896397 / 18014398509481984
   \<and> average_engagement (duration_members tie_batch 10) = 3602879701896397 / 18014398509481984
   \<and> analyzeDuration [unseen_clip] = \<lparr>bd_duration = 0, bd_avgEngagement = 0, bd_sampleSize = None\<rparr>"
  by (simp add: tie_batch_def unseen_clip_def duration_eval duration_key_def
        average_engagement_def fl_sum_def duration_members_def)

text \<open>
  In \<open>rounding_batch\<close> every rate is 0.1, and the group of three videos wins with
  the average 0.10000000000000002. In \<open>seconds_batch\<close> the durations 12.9 and 12.1
  share the key 12 and 13.0 does not; the group with key 12 wins with the average
  0.30000000000000004 of 0.2 and 0.4.
\<close>

theorem analyzeDuration_selects_best_witness:
  "analyzeDuration rounding_batch =
     \<lparr>bd_duration = 10, bd_avgEngagement = 7205759403792795 / 72057594037927936,
      bd_sampleSize = Some 3\<rparr>
   \<and> map duration_key seconds_batch = [12, 12, 13]
   \<and> analyzeDuration seconds_batch =
     \<lparr>bd_duration = 12, bd_avgEngagement = 1351079888211149 / 4503599627370496,
      bd_sampleSize = Some 2\<rparr>"
proof -
  have range: "\<forall>v\<in>set rounding_batch. 0 \<le> duration v \<and> duration v < 4294967295"
    by (simp add: rounding_batch_def clip_def)
  have keys: "duration_key ` set rounding_batch = {5, 10}"
    by (auto simp: rounding_batch_def clip_def duration_key_def)
  have m5: "average_engagement (duration_members rounding_batch 5)
              = 3602879701896397 / 36028797018963968"
    and m10: "average_engagement (duration_members rounding_batch 10)
              = 7205759403792795 / 72057594037927936"
    and n10: "length (duration_members rounding_batch 10) = 3"
    by (simp_all add: rounding_batch_def clip_def duration_key_def duration_members_def
          average_engagement_def fl_sum_def calculateEngagementRate_def rounding_eval)
  have some: "\<not> (\<forall>k\<in>duration_key ` set rounding_batch.
                   average_engagement (duration_members rounding_batch k) \<le> 0)"
    unfolding keys by (simp add: m5)
  from analyzeDuration_selects_best [OF range] some
  have "\<exists>k\<in>duration_key ` set rounding_batch.
          analyzeDuration rounding_batch =
            \<lparr>bd_duration = k,
             bd_avgEngagement = average_engagement (duration_members rounding_batch k),
             bd_sampleSize = Some (length (duration_members rounding_batch k))\<rparr>
          \<and> (\<forall>k'\<in>duration_key ` set rounding_batch.
                average_engagement (duration_members rounding_batch k')
                  \<le> average_engagement (duration_members rounding_batch k)
                \<and> (average_engagement (duration_members rounding_batch k')
                     = average_engagement (duration_members rounding_batch k) \<longrightarrow> k \<le> k'))"
    by (simp only: if_False)
  then obtain k where
    k: "k \<in> {5, 10}"
    and result: "analyzeDuration rounding_batch =
       \<lparr>bd_duration = k,
        bd_avgEngagement = average_engagement (duration_members rounding_batch k),
        bd_sampleSize = Some (length (duration_members rounding_batch k))\<rparr>"
    and best: "\<forall>k'\<in>{5, 10}.
        average_engagement (duration_members rounding_batch k')
          \<le> average_engagement (duration_members rounding_batch k)"
    unfolding keys by blast
  from k best m5 m10 have "k = 10" by auto
  with result m10 n10 have first: "analyzeDuration rounding_batch =
     \<lparr>bd_duration = 10, bd_avgEngagement = 7205759403792795 / 72057594037927936,
      bd_sampleSize = Some 3\<rparr>"
    by simp
  have second: "map duration_key seconds_batch = [12, 12, 13]"
    by (simp add: seconds_batch_def clip_def duration_key_def)
  have third: "analyzeDuration seconds_batch =
     \<lparr>bd_duration = 12, bd_avgEngagement = 1351079888211149 / 4503599627370496,
      bd_sampleSize = Some 2\<rparr>"
    by (simp add: seconds_batch_def duration_eval)
  from first second third show ?thesis by simp
qed

theorem analyzeDuration_without_engagement_witness:
  "[unseen_clip] \<noteq> []
   \<and> analyzeDuration [unseen_clip] = \<lparr>bd_duration = 0, bd_avgEngagement = 0, bd_sampleSize = None\<rparr>"
  using analyzeDuration_without_engagement [of "[unseen_clip]"]
  by (simp add: unseen_clip_def clip_def calculateEngagementRate_def)

subsection \<open>Posting-time slots\<close>

lemma foldl_slot_add:
  "foldl (\<lambda>g x. slot_add x g) g0 ys =
     g0\<lparr>ts_count := ts_count g0 + length ys,
        ts_totalEngagement :=
          foldl fadd (ts_totalEngagement g0) (map calculateEngagementRate ys)\<rparr>"
  by (induction ys arbitrary: g0) (simp_all add: slot_add_def)

lemma timeSlots_keys:
  "map fst (timeSlots w videos) = first_seen (map (slot_of w) videos)"
  unfolding timeSlots_def
  by (rule grouped_keys) (simp add: slot_step_def)

lemma timeSlots_lookup:
  "map_of (timeSlots w videos) s =
     (if slot_members w videos s = [] then None
      else Some \<lparr>ts_count = length (slot_members w videos s),
                 ts_totalEngagement =
                   fl_sum (map calculateEngagementRate (slot_members w videos s)),
                 ts_day = fst s, ts_hour = snd s\<rparr>)"
proof -
  have lookup: "map_of (foldl (slot_step w) [] videos) s =
          (case filter (\<lambda>x. slot_of w x = s) videos of
             [] \<Rightarrow> None
           | y # ys \<Rightarrow>
               Some (foldl (\<lambda>g x. slot_add x g)
                       \<lparr>ts_count = 0, ts_totalEngagement = 0,
                        ts_day = fst (slot_of w y), ts_hour = snd (slot_of w y)\<rparr> (y # ys)))"
    by (rule grouped_values) (simp add: slot_step_def)
  show ?thesis
  proof (cases "filter (\<lambda>x. slot_of w x = s) videos")
    case Nil
    with lookup show ?thesis by (simp add: timeSlots_def slot_members_def)
  next
    case (Cons y ys)
    then have "y \<in> set (filter (\<lambda>x. slot_of w x = s) videos)" by simp
    then have "slot_of w y = s" by simp
    with lookup Cons show ?thesis
      by (simp add: timeSlots_def slot_members_def foldl_slot_add fl_sum_def)
  qed
qed

lemma timeSlots_entry:
  assumes "e \<in> set (timeSlots w videos)"
  shows "fst e \<in> slot_of w ` set videos
         \<and> snd e = \<lparr>ts_count = length (slot_members w videos (fst e)),
                     ts_totalEngagement =
                       fl_sum (map calculateEngagementRate (slot_members w videos (fst e))),
                     ts_day = fst (fst e), ts_hour = snd (fst e)\<rparr>"
proof -
  have "distinct (map fst (timeSlots w videos))"
    by (simp add: timeSlots_keys)
  with assms have "map_of (timeSlots w videos) (fst e) = Some (snd e)"
    by (simp add: map_of_eq_Some_iff)
  then have "slot_members w videos (fst e) \<noteq> []"
    and eq: "snd e = \<lparr>ts_count = length (slot_members w videos (fst e)),
                     ts_totalEngagement =
                       fl_sum (map calculateEngagementRate (slot_members w videos (fst e))),
                     ts_day = fst (fst e), ts_hour = snd (fst e)\<rparr>"
    by (auto simp: timeSlots_lookup split: if_splits)
  moreover have "fst e \<in> set (map fst (timeSlots w videos))"
    using assms by simp
  then have "fst e \<in> slot_of w ` set videos"
    by (simp only: timeSlots_keys set_first_seen set_map)
  ultimately show ?thesis by simp
qed

lemma slot_entry_fields:
  assumes "e \<in> set (timeSlots w videos)"
  shows "(pt_day (slot_entry e), pt_hour (slot_entry e)) = fst e"
    and "pt_count (slot_entry e) = length (slot_members w videos (fst e))"
    and "pt_avgEngagement (slot_entry e) = average_engagement (slot_members w videos (fst e))"
proof -
  from timeSlots_entry [OF assms]
  have eq: "snd e = \<lparr>ts_count = length (slot_members w videos (fst e)),
                     ts_totalEngagement =
                       fl_sum (map calculateEngagementRate (slot_members w videos (fst e))),
                     ts_day = fst (fst e), ts_hour = snd (fst e)\<rparr>"
    by simp
  show "(pt_day (slot_entry e), pt_hour (slot_entry e)) = fst e"
    by (simp add: slot_entry_def eq)
  show "pt_count (slot_entry e) = length (slot_members w videos (fst e))"
    by (simp add: slot_entry_def eq)
  show "pt_avgEngagement (slot_entry e) = average_engagement (slot_members w videos (fst e))"
    by (simp add: slot_entry_def eq average_engagement_def)
qed

lemma posted_slot_entries:
  "map posted_slot (map slot_entry (timeSlots w videos)) = first_seen (map (slot_of w) videos)"
proof -
  have "map posted_slot (map slot_entry (timeSlots w videos)) = map fst (timeSlots w videos)"
    by (simp add: posted_slot_def slot_entry_fields(1))
  then show ?thesis by (simp only: timeSlots_keys)
qed

text \<open>
  C5. For every list, \<^verbatim>\<open>analyzePostingTimes\<close> returns at most 5 entries, as many as
  there are distinct (day, hour) slots when these are fewer, each entry standing for a
  different slot of the input with the number of its videos and the average of their
  engagement rates as the source computes it (the rounded sum of the rates in input
  order, divided by their number). The entries are in non-increasing order of that
  average, and entries with equal averages are in the order in which their slots were
  first met. Every slot that is left out comes after every entry in the same order:
  its average is smaller, or equal and the slot was met later.
\<close>

theorem analyzePostingTimes_ranking:
  "length (analyzePostingTimes w videos) \<le> 5
   \<and> length (analyzePostingTimes w videos) = min 5 (card (slot_of w ` set videos))
   \<and> distinct (map posted_slot (analyzePostingTimes w videos))
   \<and> (\<forall>p\<in>set (analyzePostingTimes w videos).
         posted_slot p \<in> slot_of w ` set videos
         \<and> pt_count p = length (slot_members w videos (posted_slot p))
         \<and> pt_avgEngagement p = average_engagement (slot_members w videos (posted_slot p)))
   \<and> sorted_wrt
         (\<lambda>a b. pt_avgEngagement b < pt_avgEngagement a
            \<or> (pt_avgEngagement a = pt_avgEngagement b
                \<and> encounter_rank (map (slot_of w) videos) (posted_slot a)
                    < encounter_rank (map (slot_of w) videos) (posted_slot b)))
         (analyzePostingTimes w videos)
   \<and> (\<forall>s\<in>slot_of w ` set videos - posted_slot ` set (analyzePostingTimes w videos).
         \<forall>p\<in>set (analyzePostingTimes w videos).
           average_engagement (slot_members w videos s) < pt_avgEngagement p
           \<or> (pt_avgEngagement p = average_engagement (slot_members w videos s)
               \<and> encounter_rank (map (slot_of w) videos) (posted_slot p)
                   < encounter_rank (map (slot_of w) videos) s))"
proof -
  let ?G = "timeSlots w videos"
  let ?L = "map slot_entry ?G"
  let ?S = "js_sort (sort_choice w) by_avgEngagement ?L"
  let ?rank = "encounter_rank (map (slot_of w) videos)"
  let ?R = "\<lambda>a b. pt_avgEngagement b < pt_avgEngagement a
            \<or> (pt_avgEngagement a = pt_avgEngagement b
                \<and> ?rank (posted_slot a) < ?rank (posted_slot b))"
  have result: "analyzePostingTimes w videos = take 5 ?S"
    by (simp add: analyzePostingTimes_def)
  have "length ?G = length (map fst ?G)" by simp
  also have "\<dots> = length (first_seen (map (slot_of w) videos))"
    by (simp only: timeSlots_keys)
  finally have size: "length ?G = card (slot_of w ` set videos)"
    by (simp add: length_first_seen)
  have len: "length (analyzePostingTimes w videos) = min 5 (card (slot_of w ` set videos))"
    by (simp add: result size min.commute)
  have slots: "map posted_slot ?L = first_seen (map (slot_of w) videos)"
    by (rule posted_slot_entries)
  then have "distinct (map posted_slot ?L)" by simp
  then have "distinct (map posted_slot ?S)" by simp
  then have dist: "distinct (map posted_slot (analyzePostingTimes w videos))"
    by (simp add: result take_map [symmetric] distinct_take)
  have entry: "posted_slot p \<in> slot_of w ` set videos
         \<and> pt_count p = length (slot_members w videos (posted_slot p))
         \<and> pt_avgEngagement p = average_engagement (slot_members w videos (posted_slot p))"
    if "p \<in> set ?S" for p
  proof -
    from that obtain e where e: "e \<in> set ?G" "p = slot_entry e" by auto
    have "posted_slot p = fst e"
      using e by (simp add: posted_slot_def slot_entry_fields(1))
    with e timeSlots_entry [OF e(1)] slot_entry_fields(2,3) [OF e(1)] show ?thesis
      by simp
  qed
  have content: "\<forall>p\<in>set (analyzePostingTimes w videos).
         posted_slot p \<in> slot_of w ` set videos
         \<and> pt_count p = length (slot_members w videos (posted_slot p))
         \<and> pt_avgEngagement p = average_engagement (slot_members w videos (posted_slot p))"
    using entry unfolding result by (blast dest: in_set_takeD)
  have "sorted_wrt (\<lambda>a b. ?rank a < ?rank b) (map posted_slot ?L)"
    unfolding slots by (rule first_seen_ranked)
  then have "sorted_wrt (\<lambda>a b. ?rank (posted_slot a) < ?rank (posted_slot b)) ?L"
    by (simp only: sorted_wrt_map)
  then have all_sorted: "sorted_wrt ?R ?S"
    by (intro js_sort_ranked) (simp_all add: by_avgEngagement_def)
  then have ordered: "sorted_wrt ?R (analyzePostingTimes w videos)"
    unfolding result by (rule sorted_wrt_take)
  from all_sorted have "sorted_wrt ?R (take 5 ?S @ drop 5 ?S)" by simp
  then have cut: "\<forall>p\<in>set (take 5 ?S). \<forall>q\<in>set (drop 5 ?S). ?R p q"
    by (simp only: sorted_wrt_append) blast
  have left_out: "average_engagement (slot_members w videos s) < pt_avgEngagement p
           \<or> (pt_avgEngagement p = average_engagement (slot_members w videos s)
               \<and> ?rank (posted_slot p) < ?rank s)"
    if s: "s \<in> slot_of w ` set videos - posted_slot ` set (analyzePostingTimes w videos)"
      and p: "p \<in> set (analyzePostingTimes w videos)" for s p
  proof -
    have "set (map posted_slot ?S) = set (map posted_slot ?L)"
      by (simp only: set_map set_js_sort)
    also have "\<dots> = slot_of w ` set videos"
      by (simp only: slots set_first_seen set_map)
    finally have "posted_slot ` set ?S = slot_of w ` set videos" by simp
    moreover from s have "s \<in> slot_of w ` set videos" by simp
    ultimately have "s \<in> posted_slot ` set ?S" by (simp only:)
    then obtain q where q: "q \<in> set ?S" "posted_slot q = s" by (metis imageE)
    from s q have "q \<notin> set (take 5 ?S)"
      unfolding result by auto
    moreover from q(1) have "q \<in> set (take 5 ?S @ drop 5 ?S)" by simp
    ultimately have "q \<in> set (drop 5 ?S)" by (simp only: set_append Un_iff) blast
    with cut p have "?R p q" unfolding result by blast
    with entry [OF q(1)] q(2) show ?thesis by auto
  qed
  from len have "length (analyzePostingTimes w videos) \<le> 5" by simp
  with len dist content ordered left_out show ?thesis by blast
qed

lemmas posting_eval =
  analyzePostingTimes_def timeSlots_def slot_step_def slot_of_def slot_add_def slot_entry_def
  by_avgEngagement_def upsert_def calculateEngagementRate_def clip_def rounding_eval

text \<open>
  In \<open>slots_batch\<close> every rate is 0.1; the slot met second, with three videos, has
  the average 0.10000000000000002 and comes first. In \<open>times_batch\<close> the two slots
  have the same average and keep the order in which they were met.
\<close>

theorem analyzePostingTimes_ranking_witness:
  "map posted_slot (analyzePostingTimes utc_host slots_batch) = [(4, 1), (4, 0)]
   \<and> map pt_avgEngagement (analyzePostingTimes utc_host slots_batch)
       = [7205759403792795 / 72057594037927936, 3602879701896397 / 36028797018963968]
   \<and> map posted_slot (analyzePostingTimes utc_host times_batch) = [(1, 14), (2, 9)]"
proof -
  let ?R = "analyzePostingTimes utc_host slots_batch"
  have slots: "map (slot_of utc_host) slots_batch = [(4, 0), (4, 1), (4, 1), (4, 1)]"
    by (simp add: slots_batch_def clip_def slot_of_def utc_host_def)
  then have "set (map (slot_of utc_host) slots_batch) = {(4, 0), (4, 1)}"
    by (simp only: list.set) auto
  then have slot_set: "slot_of utc_host ` set slots_batch = {(4, 0), (4, 1)}"
    by simp
  then have card: "card (slot_of utc_host ` set slots_batch) = 2" by simp
  have means: "average_engagement (slot_members utc_host slots_batch (4, 0))
                 = 3602879701896397 / 36028797018963968"
    "average_engagement (slot_members utc_host slots_batch (4, 1))
                 = 7205759403792795 / 72057594037927936"
    by (simp_all add: average_engagement_def fl_sum_def slot_members_def slots_batch_def clip_def
          slot_of_def utc_host_def calculateEngagementRate_def rounding_eval)
  note facts = analyzePostingTimes_ranking [of utc_host slots_batch]
  from facts card have len: "length ?R = 2" by simp
  then obtain p q where R: "?R = [p, q]"
    by (auto simp: length_Suc_conv numeral_2_eq_2)
  from facts have content: "\<forall>x\<in>set ?R.
         posted_slot x \<in> slot_of utc_host ` set slots_batch
         \<and> pt_count x = length (slot_members utc_host slots_batch (posted_slot x))
         \<and> pt_avgEngagement x
             = average_engagement (slot_members utc_host slots_batch (posted_slot x))"
    by (rule conjunct2 [THEN conjunct2, THEN conjunct2, THEN conjunct1])
  from facts have dist: "distinct (map posted_slot ?R)"
    by (rule conjunct2 [THEN conjunct2, THEN conjunct1])
  from facts have sorted: "sorted_wrt
         (\<lambda>a b. pt_avgEngagement b < pt_avgEngagement a
            \<or> (pt_avgEngagement a = pt_avgEngagement b
                \<and> encounter_rank (map (slot_of utc_host) slots_batch) (posted_slot a)
                    < encounter_rank (map (slot_of utc_host) slots_batch) (posted_slot b))) ?R"
    by (rule conjunct2 [THEN conjunct2, THEN conjunct2, THEN conjunct2, THEN conjunct1])
  from content have where_p: "posted_slot p \<in> {(4, 0), (4, 1)}"
    and where_q: "posted_slot q \<in> {(4, 0), (4, 1)}"
    and avg: "pt_avgEngagement p
                = average_engagement (slot_members utc_host slots_batch (posted_slot p))"
      "pt_avgEngagement q
                = average_engagement (slot_members utc_host slots_batch (posted_slot q))"
    unfolding R slot_set by simp_all
  from dist have differ: "posted_slot p \<noteq> posted_slot q"
    unfolding R by simp
  from sorted have order: "pt_avgEngagement q \<le> pt_avgEngagement p"
    unfolding R by auto
  have "posted_slot p = (4, 1) \<and> posted_slot q = (4, 0)"
  proof (rule ccontr)
    assume "\<not> ?thesis"
    with where_p where_q differ have "posted_slot p = (4, 0) \<and> posted_slot q = (4, 1)"
      by auto
    with avg means order show False by simp
  qed
  with avg means R have first: "map posted_slot ?R = [(4, 1), (4, 0)]"
    and second: "map pt_avgEngagement ?R
        = [7205759403792795 / 72057594037927936, 3602879701896397 / 36028797018963968]"
    by simp_all
  have third: "map posted_slot (analyzePostingTimes utc_host times_batch) = [(1, 14), (2, 9)]"
    by (simp add: times_batch_def posting_eval utc_host_def monday_14h_def tuesday_09h_def
          posted_slot_def js_sort_def consistent_def stable_sort_def)
  from first second third show ?thesis by simp
qed

subsection \<open>The loops of \<^verbatim>\<open>analyzeHashtags\<close> and \<^verbatim>\<open>analyzeMusic\<close>\<close>

text \<open>
  Whatever has been written on the built-ins, the value an empty object inherits is
  truthy exactly under the names of \<^verbatim>\<open>Object.prototype\<close>: a counter written there
  is \<^verbatim>\<open>NaN\<close>, which is falsy.
\<close>

lemma truthy_inherited_property:
  "truthy (inherited_property w k) = (k \<in> set object_prototype_names)"
  by (simp add: inherited_property_def)

lemma usage_step_result:
  "fst (usage_step w video table k) =
     (if map_of table k = None \<and> k \<in> set object_prototype_names then Inl TypeError
      else Inr (upsert fresh_usage (usage_add video) k table))"
  by (simp add: usage_step_def truthy_inherited_property)

lemma forEach_throwing_append:
  "forEach_throwing f (xs @ ys) w s =
     (case forEach_throwing f xs w s of
        (Inl e, w') \<Rightarrow> (Inl e, w')
      | (Inr s', w') \<Rightarrow> forEach_throwing f ys w' s')"
  by (induction xs arbitrary: w s) (simp_all split: sum.splits prod.splits)

lemma forEach_throwing_pairs:
  "forEach_throwing (\<lambda>w table p. usage_step w (fst p) table (snd p)) (map (Pair v) ks) w table
     = forEach_throwing (\<lambda>w table tag. usage_step w v table tag) ks w table"
  by (induction ks arbitrary: w table) (simp_all split: sum.splits prod.splits)

lemma hashtagStats_uses:
  "forEach_throwing
       (\<lambda>w table video.
          forEach_throwing (\<lambda>w table tag. usage_step w video table tag) (hashtags video) w table)
       videos w table
     = forEach_throwing (\<lambda>w table p. usage_step w (fst p) table (snd p)) (tag_uses videos) w table"
proof (induction videos arbitrary: w table)
  case Nil
  show ?case by (simp add: tag_uses_def)
next
  case (Cons v videos)
  have "tag_uses (v # videos) = map (Pair v) (hashtags v) @ tag_uses videos"
    by (simp add: tag_uses_def)
  then show ?case
    by (simp add: forEach_throwing_append forEach_throwing_pairs Cons.IH
          split: sum.splits prod.splits)
qed

lemma musicStats_uses:
  "forEach_throwing (\<lambda>w table video. usage_step w video table (music video)) videos w table
     = forEach_throwing (\<lambda>w table p. usage_step w (fst p) table (snd p)) (music_uses videos) w table"
  by (induction videos arbitrary: w table)
     (simp_all add: music_uses_def split: sum.splits prod.splits)

text \<open>
  The loop throws exactly when some key is the name of an inherited property: such a
  key is never stored, so it is never found as an own property.
\<close>

lemma forEach_usage_step:
  assumes "fst ` set table \<inter> set object_prototype_names = {}"
  shows "fst (forEach_throwing (\<lambda>w table p. usage_step w (fst p) table (snd p)) uses w table) =
           (if \<exists>p\<in>set uses. snd p \<in> set object_prototype_names then Inl TypeError
            else Inr (foldl (\<lambda>table p. upsert fresh_usage (usage_add (fst p)) (snd p) table)
                        table uses))"
  using assms
proof (induction uses arbitrary: w table)
  case Nil
  show ?case by simp
next
  case (Cons p uses)
  show ?case
  proof (cases "snd p \<in> set object_prototype_names")
    case True
    with Cons.prems have "snd p \<notin> fst ` set table" by auto
    then have "map_of table (snd p) = None"
      by (simp add: map_of_eq_None_iff)
    with True show ?thesis by (simp add: usage_step_def truthy_inherited_property)
  next
    case False
    let ?next = "upsert fresh_usage (usage_add (fst p)) (snd p) table"
    have "fst ` set ?next = insert (snd p) (fst ` set table)"
      by (simp add: upsert_def dom_update)
    with False Cons.prems have "fst ` set ?next \<inter> set object_prototype_names = {}"
      by simp
    from Cons.IH [OF this] False show ?thesis
      by (simp add: usage_step_def truthy_inherited_property)
  qed
qed

lemma usage_loop:
  "fst (forEach_throwing (\<lambda>w table p. usage_step w (fst p) table (snd p)) uses w []) =
     (if \<exists>p\<in>set uses. snd p \<in> set object_prototype_names then Inl TypeError
      else Inr (usage_table uses))"
  unfolding usage_table_def by (rule forEach_usage_step) simp

lemma tag_uses_keys: "snd ` set (tag_uses videos) = all_tags videos"
  by (auto simp: tag_uses_def all_tags_def image_iff)


lemma hashtagStats_result:
  "fst (hashtagStats w videos) =
     (if \<exists>t\<in>all_tags videos. t \<in> set object_prototype_names then Inl TypeError
      else Inr (usage_table (tag_uses videos)))"
proof -
  have "(\<exists>p\<in>set (tag_uses videos). snd p \<in> set object_prototype_names)
      = (\<exists>t\<in>snd ` set (tag_uses videos). t \<in> set object_prototype_names)"
    by (simp only: bex_simps)
  then have "(\<exists>p\<in>set (tag_uses videos). snd p \<in> set object_prototype_names)
      = (\<exists>t\<in>all_tags videos. t \<in> set object_prototype_names)"
    by (simp only: tag_uses_keys)
  then show ?thesis
    by (simp add: hashtagStats_def hashtagStats_uses usage_loop)
qed

lemma musicStats_result:
  "fst (musicStats w videos) =
     (if \<exists>m\<in>music ` set videos. m \<in> set object_prototype_names then Inl TypeError
      else Inr (usage_table (music_uses videos)))"
proof -
  have "(\<exists>p\<in>set (music_uses videos). snd p \<in> set object_prototype_names)
      = (\<exists>m\<in>music ` set videos. m \<in> set object_prototype_names)"
    by (auto simp: music_uses_def)
  then show ?thesis
    by (simp add: musicStats_def musicStats_uses usage_loop)
qed

subsection \<open>What a run reads and writes of the world\<close>

lemma forEach_throwing_kept:
  assumes "\<And>w s x. h (snd (f w s x)) = h w"
  shows "h (snd (forEach_throwing f xs w s)) = h w"
proof (induction xs arbitrary: w s)
  case Nil
  show ?case by simp
next
  case (Cons x xs)
  obtain r w' where step: "f w s x = (r, w')" by (cases "f w s x")
  with assms [of w s x] have "h w' = h w" by simp
  with step Cons.IH show ?case by (cases r) simp_all
qed

lemma forEach_throwing_unread:
  assumes "\<And>w w' s x. fst (f w s x) = fst (f w' s x)"
  shows "fst (forEach_throwing f xs w s) = fst (forEach_throwing f xs w' s)"
proof (induction xs arbitrary: w w' s)
  case Nil
  show ?case by simp
next
  case (Cons x xs)
  obtain r w1 where one: "f w s x = (r, w1)" by (cases "f w s x")
  obtain r' w1' where two: "f w' s x = (r', w1')" by (cases "f w' s x")
  from assms [of w s x w'] one two have "r' = r" by simp
  with one two Cons.IH [of w1 _ w1'] show ?case by (cases r) simp_all
qed

lemma usage_step_kept: "host (snd (usage_step w video table k)) = host w"
  by (simp add: usage_step_def host_def)

lemma usage_step_fields:
  "instance_fields (snd (usage_step w video table k)) = instance_fields w"
  by (simp add: usage_step_def)

lemma usage_step_unread: "fst (usage_step w video table k) = fst (usage_step w' video table k)"
  by (simp add: usage_step_result)

lemma hashtagStats_kept: "host (snd (hashtagStats w videos)) = host w"
  unfolding hashtagStats_def
  by (intro forEach_throwing_kept usage_step_kept)

lemma musicStats_kept: "host (snd (musicStats w videos)) = host w"
  unfolding musicStats_def
  by (intro forEach_throwing_kept usage_step_kept)

lemma rank_usage_host:
  assumes "host w = host w'"
  shows "rank_usage w table = rank_usage w' table"
proof -
  from assms have same: "math_log10 w = math_log10 w'" "sort_choice w = sort_choice w'"
    by (simp_all add: host_def)
  then have "usage_entry w = usage_entry w'"
    by (simp add: fun_eq_iff usage_entry_def js_log10_def)
  with same show ?thesis by (simp add: rank_usage_def)
qed

lemma analyzeHashtags_kept: "host (snd (analyzeHashtags w videos)) = host w"
  using hashtagStats_kept [of w videos]
  by (auto simp: analyzeHashtags_def split: prod.splits sum.splits)

lemma analyzeMusic_kept: "host (snd (analyzeMusic w videos)) = host w"
  using musicStats_kept [of w videos]
  by (auto simp: analyzeMusic_def split: prod.splits sum.splits)

lemma analyzeHashtags_result:
  "fst (analyzeHashtags w videos) =
     (if \<exists>t\<in>all_tags videos. t \<in> set object_prototype_names then Inl TypeError
      else Inr (rank_usage w (usage_table (tag_uses videos))))"
proof -
  obtain r w' where run: "hashtagStats w videos = (r, w')" by (cases "hashtagStats w videos")
  with hashtagStats_kept [of w videos] have "host w' = host w" by simp
  then have "rank_usage w' table = rank_usage w table" for table
    by (rule rank_usage_host)
  with run hashtagStats_result [of w videos] show ?thesis
    by (auto simp: analyzeHashtags_def)
qed

lemma analyzeMusic_result:
  "fst (analyzeMusic w videos) =
     (if \<exists>m\<in>music ` set videos. m \<in> set object_prototype_names then Inl TypeError
      else Inr (rank_usage w (usage_table (music_uses videos))))"
proof -
  obtain r w' where run: "musicStats w videos = (r, w')" by (cases "musicStats w videos")
  with musicStats_kept [of w videos] have "host w' = host w" by simp
  then have "rank_usage w' table = rank_usage w table" for table
    by (rule rank_usage_host)
  with run musicStats_result [of w videos] show ?thesis
    by (auto simp: analyzeMusic_def)
qed

subsection \<open>The table of uses\<close>

lemma foldl_usage_add:
  "foldl (\<lambda>g v. usage_add v g) g0 vs =
     \<lparr>us_count = us_count g0 + length vs,
      us_totalEngagement = foldl fadd (us_totalEngagement g0) (map calculateEngagementRate vs),
      us_totalViews = us_totalViews g0 + total_views vs,
      us_videos = us_videos g0 @ map video_id vs\<rparr>"
  by (induction vs arbitrary: g0) (simp_all add: usage_add_def total_views_def)

lemma usage_table_keys: "map fst (usage_table uses) = first_seen (map snd uses)"
  unfolding usage_table_def by (rule grouped_keys) simp

lemma usage_table_lookup:
  "map_of (usage_table uses) k =
     (if uses_of uses k = [] then None
      else Some \<lparr>us_count = length (uses_of uses k),
                 us_totalEngagement = fl_sum (map calculateEngagementRate (uses_of uses k)),
                 us_totalViews = total_views (uses_of uses k),
                 us_videos = map video_id (uses_of uses k)\<rparr>)"
proof -
  let ?ps = "filter (\<lambda>p. snd p = k) uses"
  have "map_of (usage_table uses) k =
          (case ?ps of
             [] \<Rightarrow> None
           | y # ys \<Rightarrow> Some (foldl (\<lambda>g p. usage_add (fst p) g) fresh_usage (y # ys)))"
    unfolding usage_table_def by (rule grouped_values) simp
  moreover have "foldl (\<lambda>g p. usage_add (fst p) g) g0 ps
      = foldl (\<lambda>g v. usage_add v g) g0 (map fst ps)"
    for ps :: "(video \<times> string) list" and g0
    by (simp add: foldl_map)
  ultimately have "map_of (usage_table uses) k =
          (case ?ps of
             [] \<Rightarrow> None
           | y # ys \<Rightarrow> Some (foldl (\<lambda>g v. usage_add v g) fresh_usage (map fst ?ps)))"
    by (simp split: list.splits)
  then show ?thesis
    by (simp add: uses_of_def foldl_usage_add fresh_usage_def fl_sum_def split: list.splits)
qed

lemma usage_table_entry:
  assumes "e \<in> set (usage_table uses)"
  shows "uses_of uses (fst e) \<noteq> []"
    and "snd e = \<lparr>us_count = length (uses_of uses (fst e)),
                  us_totalEngagement = fl_sum (map calculateEngagementRate (uses_of uses (fst e))),
                  us_totalViews = total_views (uses_of uses (fst e)),
                  us_videos = map video_id (uses_of uses (fst e))\<rparr>"
proof -
  have "distinct (map fst (usage_table uses))"
    by (simp add: usage_table_keys)
  with assms have "map_of (usage_table uses) (fst e) = Some (snd e)"
    by (simp add: map_of_eq_Some_iff)
  then show "uses_of uses (fst e) \<noteq> []"
    and "snd e = \<lparr>us_count = length (uses_of uses (fst e)),
                  us_totalEngagement = fl_sum (map calculateEngagementRate (uses_of uses (fst e))),
                  us_totalViews = total_views (uses_of uses (fst e)),
                  us_videos = map video_id (uses_of uses (fst e))\<rparr>"
    by (auto simp: usage_table_lookup split: if_splits)
qed











subsection \<open>The ranking of usage tables\<close>

lemma rank_usage_members:
  "set (rank_usage w table) = usage_entry w ` set table"
  by (simp add: rank_usage_def)


lemma performanceScore_formula:
  assumes "r \<in> set (rank_usage w table)"
  shows "performanceScore r = js_mul (Fin (avgEngagement r)) (js_log10 w (real (totalViews r)))"
proof -
  from assms obtain e where "r = usage_entry w e"
    by (auto simp: rank_usage_members)
  then show ?thesis by (simp add: usage_entry_def)
qed


lemma unviewed_uses_score:
  assumes "r \<in> set (rank_usage w (usage_table uses))" and "totalViews r = 0"
  shows "avgEngagement r = 0"
proof -
  from assms(1) obtain e where e: "e \<in> set (usage_table uses)" "r = usage_entry w e"
    by (auto simp: rank_usage_members)
  note eq = usage_table_entry(2) [OF e(1)]
  let ?vs = "uses_of uses (fst e)"
  from assms(2) have "total_views ?vs = 0"
    by (simp add: e(2) usage_entry_def eq)
  then have "\<forall>v\<in>set ?vs. views (stats v) = 0"
    by (simp add: total_views_def)
  then have "\<forall>v\<in>set ?vs. calculateEngagementRate v = 0"
    by (simp add: calculateEngagementRate_def)
  then have "fl_sum (map calculateEngagementRate ?vs) = 0"
    by (rule fl_sum_zero)
  then show ?thesis
    by (simp add: e(2) usage_entry_def eq)
qed

lemma ranking_from_uses:
  assumes "fst (analyzeHashtags w videos) = Inr ranking
           \<or> fst (analyzeMusic w videos) = Inr ranking"
  shows "\<exists>uses. ranking = rank_usage w (usage_table uses)"
proof -
  from assms consider "fst (analyzeHashtags w videos) = Inr ranking"
    | "fst (analyzeMusic w videos) = Inr ranking"
    by blast
  then show ?thesis
  proof cases
    case 1
    then have "ranking = rank_usage w (usage_table (tag_uses videos))"
      by (auto simp: analyzeHashtags_result split: if_splits)
    then show ?thesis by blast
  next
    case 2
    then have "ranking = rank_usage w (usage_table (music_uses videos))"
      by (auto simp: analyzeMusic_result split: if_splits)
    then show ?thesis by blast
  qed
qed

text \<open>
  C6. Whenever \<^verbatim>\<open>analyzeHashtags\<close> or \<^verbatim>\<open>analyzeMusic\<close> returns a ranking, an entry
  whose \<^verbatim>\<open>totalViews\<close> is \<open>0\<close> has as \<^verbatim>\<open>performanceScore\<close> its average engagement
  times \<^verbatim>\<open>Math.log10(0) = -Infinity\<close>, which is not a finite number; the entry is
  part of the returned value, not an error. The average of such a group is \<open>0\<close>, so
  the product is \<^verbatim>\<open>NaN\<close>.
\<close>

theorem zero_views_score_not_finite:
  assumes "fst (analyzeHashtags w videos) = Inr ranking
           \<or> fst (analyzeMusic w videos) = Inr ranking"
    and "r \<in> set ranking"
    and "totalViews r = 0"
  shows "performanceScore r = js_mul (Fin (avgEngagement r)) NegInf
         \<and> \<not> is_finite (performanceScore r)
         \<and> performanceScore r = NaN"
proof -
  from ranking_from_uses [OF assms(1)] obtain uses
    where ranking: "ranking = rank_usage w (usage_table uses)" by blast
  with assms(2) have
    "performanceScore r = js_mul (Fin (avgEngagement r)) (js_log10 w (real (totalViews r)))"
    by (simp add: performanceScore_formula)
  with assms(3) have score: "performanceScore r = js_mul (Fin (avgEngagement r)) NegInf"
    by (simp add: js_log10_def)
  from assms(2,3) ranking have "avgEngagement r = 0"
    by (simp add: unviewed_uses_score)
  with score have "performanceScore r = NaN" by simp
  with score show ?thesis by simp
qed


subsection \<open>\<^verbatim>\<open>analyzeHashtags\<close> and \<^verbatim>\<open>analyzeMusic\<close> on the samples\<close>

lemma log10_100: "log 10 100 = (2::real)"
proof -
  have "log 10 (10 ^ 2) = real 2" by (rule log_pow_cancel) simp_all
  then show ?thesis by simp
qed

lemma log10_1000: "log 10 1000 = (3::real)"
proof -
  have "log 10 (10 ^ 3) = real 3" by (rule log_pow_cancel) simp_all
  then show ?thesis by simp
qed

lemmas usage_eval =
  analyzeHashtags_def hashtagStats_def analyzeMusic_def musicStats_def usage_step_def
  inherited_property_def object_prototype_names_def counter_names_def upsert_def usage_add_def
  fresh_usage_def rank_usage_def object_entries_def index_rank_def string_index_def is_digit_def
  usage_entry_def js_log10_def js_sort_def consistent_def stable_sort_def rearranged_def
  by_performanceScore_def calculateEngagementRate_def clip_def utc_host_def
  log10_100 log10_1000 rounding_eval



theorem zero_views_score_not_finite_witness:
  "fst (analyzeHashtags utc_host [unseen_clip]) =
     Inr [\<lparr>key = ''a'', avgEngagement = 0, totalViews = 0, useCount = 1,
           performanceScore = NaN\<rparr>]
   \<and> \<not> is_finite (performanceScore
         \<lparr>key = ''a'', avgEngagement = 0, totalViews = 0, useCount = 1,
          performanceScore = NaN\<rparr>)
   \<and> fst (analyzeMusic utc_host [unseen_clip]) =
     Inr [\<lparr>key = ''trackX'', avgEngagement = 0, totalViews = 0, useCount = 1,
           performanceScore = NaN\<rparr>]"
proof -
  let ?r = "\<lparr>key = ''a'', avgEngagement = 0, totalViews = 0, useCount = 1,
           performanceScore = NaN\<rparr>"
  have tags: "fst (analyzeHashtags utc_host [unseen_clip]) = Inr [?r]"
    by (simp add: unseen_clip_def usage_eval)
  have tracks: "fst (analyzeMusic utc_host [unseen_clip]) =
     Inr [\<lparr>key = ''trackX'', avgEngagement = 0, totalViews = 0, useCount = 1,
           performanceScore = NaN\<rparr>]"
    by (simp add: unseen_clip_def usage_eval)
  from tags have "fst (analyzeHashtags utc_host [unseen_clip]) = Inr [?r]
      \<or> fst (analyzeMusic utc_host [unseen_clip]) = Inr [?r]"
    by (rule disjI1)
  from zero_views_score_not_finite [OF this, of ?r] have "\<not> is_finite (performanceScore ?r)"
    by simp
  with tags tracks show ?thesis by blast
qed


subsection \<open>Recommendations and the whole batch\<close>

text \<open>
  C4 asks \<^verbatim>\<open>generateRecommendations\<close> to guard against an empty
  \<^verbatim>\<open>bestPostingTimes\<close> and to return a neutral message. The code has no such guard:
  it passes \<^verbatim>\<open>bestPostingTimes[0]\<close>, which is \<^verbatim>\<open>undefined\<close>, to
  \<^verbatim>\<open>formatTimeRecommendation\<close>, and reading \<^verbatim>\<open>.day\<close> from it throws a
  \<^verbatim>\<open>TypeError\<close>, whatever the other three fields are. This is what happens to
  \<^verbatim>\<open>analyzeVideoBatch\<close> on the empty list, although each aggregator handles it.
\<close>

theorem generateRecommendations_without_times:
  "generateRecommendations
     \<lparr>optimalDuration = d, bestPostingTimes = [], topHashtags = h, topMusic = m\<rparr>
     = Inl TypeError
   \<and> fst (analyzeVideoBatch w []) = Inl TypeError"
  by (simp add: generateRecommendations_def formatTimeRecommendation_def element0_def
        analyzeVideoBatch_def analyzeDuration_def durationGroups_def object_entries_def
        analyzePostingTimes_def timeSlots_def analyzeHashtags_def hashtagStats_def
        analyzeMusic_def musicStats_def rank_usage_def)

text \<open>
  The outcome of a run depends on the world through the host only, and a run leaves
  the host and the fields of the instance as they were.
\<close>

lemma analyzePostingTimes_host:
  assumes "host w = host w'"
  shows "analyzePostingTimes w videos = analyzePostingTimes w' videos"
proof -
  from assms have same: "getDay w = getDay w'" "getHours w = getHours w'"
    "sort_choice w = sort_choice w'"
    by (simp_all add: host_def)
  then have "slot_step w = slot_step w'"
    by (simp add: fun_eq_iff slot_step_def slot_of_def)
  with same show ?thesis
    by (simp add: analyzePostingTimes_def timeSlots_def)
qed

lemma analyzeHashtags_host:
  "host w = host w' \<Longrightarrow> fst (analyzeHashtags w videos) = fst (analyzeHashtags w' videos)"
  using rank_usage_host [of w w'] by (simp add: analyzeHashtags_result)

lemma analyzeMusic_host:
  "host w = host w' \<Longrightarrow> fst (analyzeMusic w videos) = fst (analyzeMusic w' videos)"
  using rank_usage_host [of w w'] by (simp add: analyzeMusic_result)

lemma forEach_usage_fields:
  "instance_fields (snd (hashtagStats w videos)) = instance_fields w"
  "instance_fields (snd (musicStats w videos)) = instance_fields w"
  unfolding hashtagStats_def musicStats_def
  by (intro forEach_throwing_kept usage_step_fields)+

lemma analyzeHashtags_fields:
  "instance_fields (snd (analyzeHashtags w videos)) = instance_fields w"
  using forEach_usage_fields(1) [of w videos]
  by (auto simp: analyzeHashtags_def split: prod.splits sum.splits)

lemma analyzeMusic_fields:
  "instance_fields (snd (analyzeMusic w videos)) = instance_fields w"
  using forEach_usage_fields(2) [of w videos]
  by (auto simp: analyzeMusic_def split: prod.splits sum.splits)

lemma analyzeVideoBatch_kept:
  "host (snd (analyzeVideoBatch w videos)) = host w"
  "instance_fields (snd (analyzeVideoBatch w videos)) = instance_fields w"
proof -
  obtain rh w1 where h: "analyzeHashtags w videos = (rh, w1)"
    by (cases "analyzeHashtags w videos")
  obtain rm w2 where m: "analyzeMusic w1 videos = (rm, w2)"
    by (cases "analyzeMusic w1 videos")
  from h analyzeHashtags_kept [of w videos] analyzeHashtags_fields [of w videos]
  have one: "host w1 = host w" "instance_fields w1 = instance_fields w" by simp_all
  from m analyzeMusic_kept [of w1 videos] analyzeMusic_fields [of w1 videos]
  have two: "host w2 = host w1" "instance_fields w2 = instance_fields w1" by simp_all
  from h m one two show "host (snd (analyzeVideoBatch w videos)) = host w"
    by (simp add: analyzeVideoBatch_def Let_def split: sum.splits)
  from h m one two
  show "instance_fields (snd (analyzeVideoBatch w videos)) = instance_fields w"
    by (simp add: analyzeVideoBatch_def Let_def split: sum.splits)
qed

lemma analyzeVideoBatch_result:
  "fst (analyzeVideoBatch w videos) =
     (case fst (analyzeHashtags w videos) of
        Inl e \<Rightarrow> Inl e
      | Inr h \<Rightarrow>
          (case fst (analyzeMusic w videos) of
             Inl e \<Rightarrow> Inl e
           | Inr m \<Rightarrow>
               (case generateRecommendations
                       \<lparr>optimalDuration = analyzeDuration videos,
                        bestPostingTimes = analyzePostingTimes w videos,
                        topHashtags = h, topMusic = m\<rparr> of
                  Inl e \<Rightarrow> Inl e
                | Inr r \<Rightarrow>
                    Inr \<lparr>analysisResults =
                           \<lparr>optimalDuration = analyzeDuration videos,
                            bestPostingTimes = analyzePostingTimes w videos,
                            topHashtags = h, topMusic = m\<rparr>,
                         batch_recommendations = r\<rparr>)))"
proof -
  obtain rh w1 where h: "analyzeHashtags w videos = (rh, w1)"
    by (cases "analyzeHashtags w videos")
  obtain rm w2 where m: "analyzeMusic w1 videos = (rm, w2)"
    by (cases "analyzeMusic w1 videos")
  from h analyzeHashtags_kept [of w videos] have "host w1 = host w" by simp
  then have "fst (analyzeMusic w1 videos) = fst (analyzeMusic w videos)"
    by (rule analyzeMusic_host)
  with m have "fst (analyzeMusic w videos) = rm" by simp
  with h m show ?thesis
    by (simp add: analyzeVideoBatch_def Let_def split: sum.splits)
qed

lemma analyzeVideoBatch_host:
  assumes "host w = host w'"
  shows "fst (analyzeVideoBatch w videos) = fst (analyzeVideoBatch w' videos)"
  by (simp only: analyzeVideoBatch_result analyzeHashtags_host [OF assms]
        analyzeMusic_host [OF assms] analyzePostingTimes_host [OF assms])

text \<open>
  C9. Running \<^verbatim>\<open>analyzeVideoBatch\<close> twice on the same list gives the same outcome
  both times, a result or an exception: the second run starts in the world that the
  first one left, in which the host and the fields of the instance are as they were,
  and what the first run may have written on the built-in objects does not change
  what the second one reads. More generally the outcome is the same in any two worlds
  with the same host, whatever has been written on the built-in objects or on the
  instance in between.
\<close>

theorem analyzeVideoBatch_repeatable:
  "fst (analyzeVideoBatch (snd (analyzeVideoBatch w videos)) videos)
     = fst (analyzeVideoBatch w videos)
   \<and> host (snd (analyzeVideoBatch w videos)) = host w
   \<and> instance_fields (snd (analyzeVideoBatch w videos)) = instance_fields w
   \<and> (\<forall>w'. host w' = host w \<longrightarrow>
          fst (analyzeVideoBatch w' videos) = fst (analyzeVideoBatch w videos))"
proof (intro conjI allI impI)
  show kept: "host (snd (analyzeVideoBatch w videos)) = host w"
    by (rule analyzeVideoBatch_kept)
  then show "fst (analyzeVideoBatch (snd (analyzeVideoBatch w videos)) videos)
     = fst (analyzeVideoBatch w videos)"
    by (rule analyzeVideoBatch_host)
  show "instance_fields (snd (analyzeVideoBatch w videos)) = instance_fields w"
    by (rule analyzeVideoBatch_kept)
  show "fst (analyzeVideoBatch w' videos) = fst (analyzeVideoBatch w videos)"
    if "host w' = host w" for w'
    using that by (rule analyzeVideoBatch_host)
qed

text \<open>
  A run can change the world: on a video tagged \<^verbatim>\<open>__proto__\<close> it throws after
  writing the three counters on \<^verbatim>\<open>Object.prototype\<close>, and from then on an empty
  object inherits a \<^verbatim>\<open>count\<close>; a later run with a tag of that name still returns a
  ranking, since the inherited value is \<^verbatim>\<open>NaN\<close>.
\<close>

lemma analyzeVideoBatch_writes:
  "fst (analyzeVideoBatch utc_host [inherited_clip]) = Inl TypeError
   \<and> polluted (snd (analyzeVideoBatch utc_host [inherited_clip])) = {''__proto__''}
   \<and> inherited_property utc_host ''count'' = Missing
   \<and> inherited_property (snd (analyzeVideoBatch utc_host [inherited_clip])) ''count''
       = Counter_NaN
   \<and> fst (analyzeHashtags (snd (analyzeVideoBatch utc_host [inherited_clip])) [count_clip])
       = Inr [\<lparr>key = ''count'', avgEngagement = 3602879701896397 / 18014398509481984,
               totalViews = 100, useCount = 1,
               performanceScore = Fin (3602879701896397 / 9007199254740992)\<rparr>]"
proof -
  have run: "analyzeVideoBatch utc_host [inherited_clip]
               = (Inl TypeError, utc_host\<lparr>polluted := {''__proto__''}\<rparr>)"
    by (simp add: analyzeVideoBatch_def Let_def inherited_clip_def usage_eval)
  show ?thesis
    unfolding run by (simp add: count_clip_def usage_eval)
qed

text \<open>
  After a run that has written on \<^verbatim>\<open>Object.prototype\<close>, a video tagged
  \<^verbatim>\<open>count\<close> is analysed as in the untouched world, twice.
\<close>

theorem analyzeVideoBatch_repeatable_witness:
  "snd (analyzeVideoBatch utc_host [inherited_clip]) \<noteq> utc_host
   \<and> fst (analyzeVideoBatch (snd (analyzeVideoBatch utc_host [inherited_clip])) [count_clip])
       = fst (analyzeVideoBatch utc_host [count_clip])
   \<and> fst (analyzeVideoBatch (snd (analyzeVideoBatch utc_host [count_clip])) [count_clip])
       = fst (analyzeVideoBatch utc_host [count_clip])
   \<and> topHashtags (analysisResults (projr (fst (analyzeVideoBatch utc_host [count_clip]))))
       = [\<lparr>key = ''count'', avgEngagement = 3602879701896397 / 18014398509481984,
           totalViews = 100, useCount = 1,
           performanceScore = Fin (3602879701896397 / 9007199254740992)\<rparr>]"
proof -
  let ?w = "snd (analyzeVideoBatch utc_host [inherited_clip])"
  have run: "analyzeVideoBatch utc_host [inherited_clip]
               = (Inl TypeError, utc_host\<lparr>polluted := {''__proto__''}\<rparr>)"
    by (simp add: analyzeVideoBatch_def Let_def inherited_clip_def usage_eval)
  have changed: "?w \<noteq> utc_host"
  proof
    assume "?w = utc_host"
    then have "polluted ?w = polluted utc_host" by (rule arg_cong)
    then show False
      unfolding run by (simp add: utc_host_def)
  qed
  have same: "host ?w = host utc_host"
    unfolding run by (simp add: host_def)
  note facts = analyzeVideoBatch_repeatable [of utc_host "[count_clip]"]
  from facts have "\<forall>w'. host w' = host utc_host \<longrightarrow>
          fst (analyzeVideoBatch w' [count_clip]) = fst (analyzeVideoBatch utc_host [count_clip])"
    by (rule conjunct2 [THEN conjunct2, THEN conjunct2])
  with same have other: "fst (analyzeVideoBatch ?w [count_clip])
       = fst (analyzeVideoBatch utc_host [count_clip])"
    by blast
  from facts have twice: "fst (analyzeVideoBatch (snd (analyzeVideoBatch utc_host [count_clip]))
                                 [count_clip])
       = fst (analyzeVideoBatch utc_host [count_clip])"
    by (rule conjunct1)
  have tags: "fst (analyzeHashtags utc_host [count_clip])
       = Inr [\<lparr>key = ''count'', avgEngagement = 3602879701896397 / 18014398509481984,
               totalViews = 100, useCount = 1,
               performanceScore = Fin (3602879701896397 / 9007199254740992)\<rparr>]"
    by (simp add: count_clip_def usage_eval)
  have tracks: "fst (analyzeMusic utc_host [count_clip])
       = Inr [\<lparr>key = ''m5'', avgEngagement = 3602879701896397 / 18014398509481984,
               totalViews = 100, useCount = 1,
               performanceScore = Fin (3602879701896397 / 9007199254740992)\<rparr>]"
    by (simp add: count_clip_def usage_eval)
  have times: "analyzePostingTimes utc_host [count_clip] \<noteq> []"
    by (simp add: count_clip_def posting_eval utc_host_def js_sort_def consistent_def
          stable_sort_def)
  then obtain p ps where "analyzePostingTimes utc_host [count_clip] = p # ps"
    by (cases "analyzePostingTimes utc_host [count_clip]") simp_all
  then have "topHashtags (analysisResults (projr (fst (analyzeVideoBatch utc_host [count_clip]))))
       = [\<lparr>key = ''count'', avgEngagement = 3602879701896397 / 18014398509481984,
           totalViews = 100, useCount = 1,
           performanceScore = Fin (3602879701896397 / 9007199254740992)\<rparr>]"
    by (simp add: analyzeVideoBatch_result tags tracks generateRecommendations_def
          formatTimeRecommendation_def element0_def)
  with changed other twice show ?thesis by (intro conjI)
qed

text \<open>The outcome does depend on the host: an hour further east the slot is another.\<close>

lemma analyzePostingTimes_time_zone:
  "map posted_slot (analyzePostingTimes utc_host [scenario_clip]) = [(1, 14)]
   \<and> map posted_slot (analyzePostingTimes cet_host [scenario_clip]) = [(1, 15)]"
  by (simp add: scenario_clip_def posting_eval utc_host_def cet_host_def monday_14h_def
        posted_slot_def js_sort_def consistent_def stable_sort_def)

text \<open>
  The scenario of the specification: one video with 100 views, 10 likes, 5 comments
  and 5 shares, 15.4 seconds long, tagged \<open>a\<close> and \<open>b\<close>, with music \<open>trackX\<close>, posted
  on a Monday at 14:00. The rate is the binary64 number 0.2 and the scores are 0.4.
\<close>

lemma scenario_analysis:
  "analyzeDuration [scenario_clip] =
     \<lparr>bd_duration = 15, bd_avgEngagement = 3602879701896397 / 18014398509481984,
      bd_sampleSize = Some 1\<rparr>
   \<and> analyzePostingTimes utc_host [scenario_clip] =
     [\<lparr>pt_count = 1, pt_totalEngagement = 3602879701896397 / 18014398509481984,
       pt_day = 1, pt_hour = 14,
       pt_avgEngagement = 3602879701896397 / 18014398509481984\<rparr>]
   \<and> fst (analyzeHashtags utc_host [scenario_clip]) =
     Inr [\<lparr>key = ''a'', avgEngagement = 3602879701896397 / 18014398509481984,
           totalViews = 100, useCount = 1,
           performanceScore = Fin (3602879701896397 / 9007199254740992)\<rparr>,
          \<lparr>key = ''b'', avgEngagement = 3602879701896397 / 18014398509481984,
           totalViews = 100, useCount = 1,
           performanceScore = Fin (3602879701896397 / 9007199254740992)\<rparr>]
   \<and> fst (analyzeMusic utc_host [scenario_clip]) =
     Inr [\<lparr>key = ''trackX'', avgEngagement = 3602879701896397 / 18014398509481984,
           totalViews = 100, useCount = 1,
           performanceScore = Fin (3602879701896397 / 9007199254740992)\<rparr>]"
  by (simp add: scenario_clip_def usage_eval duration_eval analyzePostingTimes_def
        timeSlots_def slot_step_def slot_of_def slot_add_def slot_entry_def
        by_avgEngagement_def monday_14h_def)

lemma scenario_sentences:
  "formatTimeRecommendation
     (Some \<lparr>pt_count = 1, pt_totalEngagement = 3602879701896397 / 18014398509481984,
            pt_day = 1, pt_hour = 14,
            pt_avgEngagement = 3602879701896397 / 18014398509481984\<rparr>)
     = Inr (''lundi '' @ [CHR 0xE0] @ '' 14h00'')
   \<and> string_of_int 15 = ''15''"
  by (simp add: formatTimeRecommendation_def days_def string_of_int_def digits_def)

end
